theory Spec2Isabelle
  imports Complex_Main "HOL-Library.AList" "HOL-Library.Char_ord" "HOL-Library.List_Lexorder"
begin

section \<open>The runtime's Date and the temporal utilities (date-utils.js)\<close>

text \<open>
  A JavaScript \<^verbatim>\<open>Date\<close> is a count of milliseconds. The calendar core works in one civil
  time frame with a fixed offset to UTC (no daylight-saving shift), so a Date is modelled
  by its milliseconds since 1970-01-01 00:00 of that frame. \<^verbatim>\<open>getTime()\<close> differs from
  this count by the constant offset only, which cancels in every comparison and
  difference the code makes, and \<^verbatim>\<open>getTimezoneOffset()\<close> is the same for all dates.
  Invalid dates (\<^verbatim>\<open>NaN\<close>) are outside the model. The utilities that read the offset or step
  by days are given a second time further down, for a zone whose offset changes.
\<close>

type_synonym date = int

definition msPerDay :: int where
  "msPerDay = 24 * 3600 * 1000"

text \<open>The runtime's calendar: day number to (year, month 1..12, day of month) and back.\<close>

definition civil_from_days :: "int \<Rightarrow> int \<times> int \<times> int" where
  "civil_from_days z0 =
    (let z = z0 + 719468;
         era = z div 146097;
         doe = z mod 146097;
         yoe = (doe - doe div 1460 + doe div 36524 - doe div 146096) div 365;
         doy = doe - (365 * yoe + yoe div 4 - yoe div 100);
         mp = (5 * doy + 2) div 153;
         d = doy - (153 * mp + 2) div 5 + 1;
         m = (if mp < 10 then mp + 3 else mp - 9);
         y = yoe + era * 400 + (if m \<le> 2 then 1 else 0)
     in (y, m, d))"

definition days_from_civil :: "int \<Rightarrow> int \<Rightarrow> int \<Rightarrow> int" where
  "days_from_civil y0 m d =
    (let y = (if m \<le> 2 then y0 - 1 else y0);
         era = y div 400;
         yoe = y mod 400;
         doy = (153 * (if m > 2 then m - 3 else m + 9) + 2) div 5 + d - 1;
         doe = yoe * 365 + yoe div 4 - yoe div 100 + doy
     in era * 146097 + doe - 719468)"

text \<open>\<^verbatim>\<open>new Date(year, monthIndex, day, hours, minutes)\<close>, month index from 0.\<close>

definition mkDate :: "int \<Rightarrow> int \<Rightarrow> int \<Rightarrow> int \<Rightarrow> int \<Rightarrow> date" where
  "mkDate y mi d h mn = days_from_civil y (mi + 1) d * msPerDay + h * 3600000 + mn * 60000"

definition getTime :: "date \<Rightarrow> int" where
  "getTime t = t"

definition getFullYear :: "date \<Rightarrow> int" where
  "getFullYear t = fst (civil_from_days (t div msPerDay))"

definition getMonth :: "date \<Rightarrow> int" where
  "getMonth t = fst (snd (civil_from_days (t div msPerDay))) - 1"

definition getDate :: "date \<Rightarrow> int" where
  "getDate t = snd (snd (civil_from_days (t div msPerDay)))"

definition getHours :: "date \<Rightarrow> int" where
  "getHours t = (t mod msPerDay) div 3600000"

definition getMinutes :: "date \<Rightarrow> int" where
  "getMinutes t = ((t mod msPerDay) div 60000) mod 60"

definition getTimezoneOffset :: "date \<Rightarrow> int" where
  "getTimezoneOffset t = 0"

text \<open>
  \<^verbatim>\<open>setHours(h, m, s, ms)\<close> replaces the whole time of day; \<^verbatim>\<open>setHours(h, m, s)\<close> keeps the
  milliseconds of the date it is called on. Both return the new count.
\<close>

definition setHours4 :: "date \<Rightarrow> int \<Rightarrow> int \<Rightarrow> int \<Rightarrow> int \<Rightarrow> date" where
  "setHours4 t h m s ms = (t div msPerDay) * msPerDay + h * 3600000 + m * 60000 + s * 1000 + ms"

definition setHours3 :: "date \<Rightarrow> int \<Rightarrow> int \<Rightarrow> int \<Rightarrow> date" where
  "setHours3 t h m s = setHours4 t h m s (t mod 1000)"

text \<open>
  \<^verbatim>\<open>Date.prototype.addDays\<close> and \<^verbatim>\<open>subtractDays\<close> copy the date and call
  \<^verbatim>\<open>setDate(getDate() + days)\<close>: the runtime moves the day number and keeps the time of
  day, which in a frame without offset changes is a shift by whole days.
\<close>

definition addDays :: "date \<Rightarrow> int \<Rightarrow> date" where
  "addDays t days = t + days * msPerDay"

definition subtractDays :: "date \<Rightarrow> int \<Rightarrow> date" where
  "subtractDays t days = t - days * msPerDay"

subsection \<open>Numbers as strings\<close>

definition digit_char :: "nat \<Rightarrow> char" where
  "digit_char n = (''0123456789'' ! (n mod 10))"

fun nat_digits :: "nat \<Rightarrow> string" where
  "nat_digits n = (if n < 10 then [digit_char n] else nat_digits (n div 10) @ [digit_char n])"

text \<open>The string JavaScript concatenates for an integer number.\<close>

definition numToString :: "int \<Rightarrow> string" where
  "numToString i = (if i < 0 then CHR ''-'' # nat_digits (nat (- i)) else nat_digits (nat i))"

text \<open>\<^verbatim>\<open>(n < 10 ? '0' : '') + n\<close>\<close>

definition pad2 :: "int \<Rightarrow> string" where
  "pad2 n = (if n < 10 then ''0'' else '''') @ numToString n"

text \<open>JavaScript's \<^verbatim>\<open>%\<close> for a positive divisor: the result has the sign of the dividend.\<close>

definition js_rem :: "int \<Rightarrow> int \<Rightarrow> int" where
  "js_rem a b = (if a < 0 then - ((- a) mod b) else a mod b)"

text \<open>\<^verbatim>\<open>str.substr(0, n)\<close>\<close>

definition substr0 :: "string \<Rightarrow> nat \<Rightarrow> string" where
  "substr0 s n = take n s"

subsection \<open>formatDateLite, formatTime, countDays, datesInSameTimeStep\<close>

definition formatDateLite :: "date \<Rightarrow> string" where
  "formatDateLite date =
    (let m = getMonth date + 1;
         d = getDate date
     in numToString (getFullYear date) @ ''-'' @ (if m < 10 then ''0'' else '''') @ numToString m
        @ ''-'' @ (if d < 10 then ''0'' else '''') @ numToString d)"

text \<open>
  \<^verbatim>\<open>formatTime(time)\<close> with its default format \<^verbatim>\<open>'HH:mm'\<close>: the pattern has the two tokens
  \<^verbatim>\<open>HH\<close> and \<^verbatim>\<open>mm\<close>, replaced from the token table, and the colon between them is kept.
\<close>

definition formatTime :: "int \<Rightarrow> string" where
  "formatTime time =
    (let H = time div 60;
         m = js_rem time 60
     in pad2 H @ '':'' @ pad2 m)"

text \<open>
  \<^verbatim>\<open>countDays\<close>: the source's two normalisations are kept as functions of their own,
  \<^verbatim>\<open>start = (new Date(start)).setHours(0, 0, 0)\<close> and \<^verbatim>\<open>end = (new Date(end)).setHours(0, 0, 1)\<close>.
  \<^verbatim>\<open>Math.ceil(a / b)\<close> for integers \<open>a\<close> and positive \<open>b\<close> is \<open>- ((- a) div b)\<close>.
\<close>

definition countDays_start :: "date \<Rightarrow> int" where
  "countDays_start start = setHours3 start 0 0 0"

definition countDays_end :: "date \<Rightarrow> int" where
  "countDays_end end0 = setHours3 end0 0 0 1"

definition ceil_div :: "int \<Rightarrow> int \<Rightarrow> int" where
  "ceil_div a b = - ((- a) div b)"

definition countDays :: "date \<Rightarrow> date \<Rightarrow> int" where
  "countDays start0 end0 =
    (let start = countDays_start start0;
         end1 = countDays_end end0;
         timezoneDiffMs = (getTimezoneOffset end1 - getTimezoneOffset start) * 60 * 1000
     in ceil_div (end1 - start - timezoneDiffMs) (24 * 3600 * 1000))"


definition datesInSameTimeStep :: "date \<Rightarrow> date \<Rightarrow> int \<Rightarrow> bool" where
  "datesInSameTimeStep date1 date2 timeStep =
    (\<bar>getTime date1 - getTime date2\<bar> \<le> timeStep * 60 * 1000)"

declare nat_digits.simps [simp del]

section \<open>The event model (event-utils.js)\<close>

text \<open>
  An event segment is the piece of a multiple-day event that falls on one day. An event's
  \<^verbatim>\<open>segments\<close> is \<^verbatim>\<open>null\<close> or an object keyed by the day (\<^verbatim>\<open>YYYY-MM-DD\<close>): an association
  list in insertion order with \<^const>\<open>AList.update\<close> for an assignment (in place for a key
  that exists, at the end for a new one), \<^const>\<open>AList.delete\<close> for \<^verbatim>\<open>delete\<close>, and its
  length for \<^verbatim>\<open>Object.keys(...).length\<close> (the keys of an object are distinct).
\<close>

record segment =
  seg_startDate :: date
  seg_start :: string
  seg_startTimeMinutes :: int
  seg_endTimeMinutes :: int
  isFirstDay :: bool
  isLastDay :: bool
  seg_height :: int
  seg_top :: int

text \<open>One known date of a repeated event (\<^verbatim>\<open>e.occurrences[day]\<close>): its start and end instants.\<close>

record occurrence =
  occ_start :: int
  occ_end :: int

text \<open>The repeat rule; \<^verbatim>\<open>until\<close> is held as the date \<^verbatim>\<open>stringToDate\<close> parses it to.\<close>

record repeat_rule =
  every :: string
  weekdays :: "int list option"
  until :: "date option"

record event =
  eid :: string
  start :: string
  startDate :: date
  startTimeMinutes :: int
  end_str :: string
  endDate :: date
  endTimeMinutes :: int
  title :: string
  content_str :: string
  background :: bool
  allDay :: bool
  segments :: "(string \<times> segment) list option"
  repeat_opt :: "repeat_rule option"
  occurrences :: "(string \<times> occurrence) list option"
  daysCount :: int
  deletable :: bool
  deleting :: bool
  resizable :: bool
  resizing :: bool
  draggable :: bool
  dragging :: bool
  focused :: bool
  top_px :: int
  height_px :: int
  classes :: "string list"

definition minutesInADay :: int where
  "minutesInADay = 24 * 60"

definition defaultEventDuration :: int where
  "defaultEventDuration = 2"

text \<open>What the runtime raises where the source reads a property of \<^verbatim>\<open>null\<close> or \<^verbatim>\<open>undefined\<close>.\<close>

datatype js_error = TypeError

section \<open>Growing and shrinking a multiple-day event by one day\<close>

text \<open>
  \<^verbatim>\<open>addEventSegment(e)\<close> mutates the event and returns the new day's key: the model returns
  the event after the call and the key. \<^verbatim>\<open>endDate\<close> is the copy \<^verbatim>\<open>new Date(startDate)\<close> made
  before \<^verbatim>\<open>startDate.setHours(0, 0, 0, 0)\<close>, so it keeps the time of day. The copy of the
  function in \<^verbatim>\<open>src/components/vue-cal/event-utils.js\<close> formats with \<^verbatim>\<open>formatDate(date, null, texts)\<close>,
  which is \<^verbatim>\<open>formatDateLite(date)\<close>, and differs in the start instant of the new segment only
  (\<^verbatim>\<open>setHours(0, 0)\<close> keeps its seconds).
\<close>

definition addEventSegment :: "event \<Rightarrow> event \<times> string" where
  "addEventSegment e =
    (let segs0 = (case segments e of
                    None \<Rightarrow>
                      [(substr0 (start e) 10,
                        \<lparr>seg_startDate = startDate e, seg_start = substr0 (start e) 10,
                         seg_startTimeMinutes = startTimeMinutes e,
                         seg_endTimeMinutes = minutesInADay,
                         isFirstDay = True, isLastDay = False, seg_height = 0, seg_top = 0\<rparr>)]
                  | Some segs \<Rightarrow> segs);
         prevKey = formatDateLite (endDate e);
         segs1 = (case map_of segs0 prevKey of
                    Some previousSegment \<Rightarrow>
                      AList.update prevKey
                        (previousSegment\<lparr>isLastDay := False, seg_endTimeMinutes := minutesInADay\<rparr>)
                        segs0
                  | None \<Rightarrow> segs0);
         startDate0 = addDays (endDate e) 1;
         endDate1 = startDate0;
         formattedDate = formatDateLite startDate0;
         startDate1 = setHours4 startDate0 0 0 0 0;
         segs2 = AList.update formattedDate
                   \<lparr>seg_startDate = startDate1, seg_start = formattedDate,
                    seg_startTimeMinutes = 0, seg_endTimeMinutes = endTimeMinutes e,
                    isFirstDay = False, isLastDay = True, seg_height = 0, seg_top = 0\<rparr>
                   segs1
     in (e\<lparr>segments := Some segs2,
           daysCount := int (length segs2),
           endDate := endDate1,
           end_str := formattedDate @ '' '' @ formatTime (endTimeMinutes e)\<rparr>,
         formattedDate))"

text \<open>
  \<^verbatim>\<open>removeEventSegment(e)\<close>: \<^verbatim>\<open>Object.keys(e.segments)\<close> raises a TypeError when
  \<^verbatim>\<open>e.segments\<close> is \<^verbatim>\<open>null\<close>. The lookup of the previous segment is made after the
  \<^verbatim>\<open>delete\<close>; \<^verbatim>\<open>segmentsCount || 1\<close> is 1 for a count of 0.
\<close>

definition removeEventSegment :: "event \<Rightarrow> js_error + event \<times> string" where
  "removeEventSegment e =
    (case segments e of
       None \<Rightarrow> Inl TypeError
     | Some segs \<Rightarrow>
        (let segmentsCount0 = int (length segs) in
         if segmentsCount0 \<le> 1 then Inr (e, substr0 (end_str e) 10)
         else
          (let segs1 = AList.delete (substr0 (end_str e) 10) segs;
               segmentsCount = segmentsCount0 - 1;
               endDate1 = subtractDays (endDate e) 1;
               formattedDate = formatDateLite endDate1;
               segs2 = (if segmentsCount = 0 then None
                        else (case map_of segs1 formattedDate of
                                Some previousSegment \<Rightarrow>
                                  Some (AList.update formattedDate
                                         (previousSegment\<lparr>isLastDay := True,
                                            seg_endTimeMinutes := endTimeMinutes e\<rparr>)
                                         segs1)
                              | None \<Rightarrow> Some segs1))
           in Inr (e\<lparr>segments := segs2,
                     daysCount := (if segmentsCount = 0 then 1 else segmentsCount),
                     endDate := endDate1,
                     end_str := formattedDate @ '' '' @ formatTime (endTimeMinutes e)\<rparr>,
                   formattedDate))))"

section \<open>Rebuilding the segments of an event within a view\<close>

text \<open>
  \<^verbatim>\<open>createEventSegments(e, viewStartDate, viewEndDate)\<close>. The variables its \<^verbatim>\<open>while\<close> loop
  assigns are the loop state; \<^verbatim>\<open>eventStartAtMidnight\<close> is \<^verbatim>\<open>undefined\<close> until the start of
  a repetition is found. \<^verbatim>\<open>new Date(timestamp)\<close> is the timestamp itself in the model.
\<close>

record seg_loop =
  timestamp :: int
  eventStart :: int
  eventEnd :: int
  eventStartAtMidnight :: "int option"
  repeatedEventStartFound :: bool
  loop_segments :: "(string \<times> segment) list"

text \<open>One pass through the loop's body, for the loop's bound \<open>end1\<close>.\<close>

definition createEventSegments_body :: "event \<Rightarrow> int \<Rightarrow> seg_loop \<Rightarrow> seg_loop" where
  "createEventSegments_body e end1 st =
    (let nextMidnight = setHours4 (addDays (timestamp st) 1) 0 0 0 0 in
     case repeat_opt e of
       Some r \<Rightarrow>
        (let tmpDate = timestamp st;
             tmpDateFormatted = formatDateLite tmpDate;
             occ = (case occurrences e of None \<Rightarrow> None | Some os \<Rightarrow> map_of os tmpDateFormatted);
             hit = (repeatedEventStartFound st \<or> occ \<noteq> None);
             st1 = (case occ of
                      Some oc \<Rightarrow>
                        (if \<not> repeatedEventStartFound st
                         then st\<lparr>eventStart := occ_start oc,
                                 eventStartAtMidnight := Some (setHours4 (occ_start oc) 0 0 0 0),
                                 eventEnd := occ_end oc\<rparr>
                         else st)
                    | None \<Rightarrow> st);
             createSegment = hit;
             isFirstDay1 = (eventStartAtMidnight st1 = Some (timestamp st));
             isLastDay1 = (tmpDateFormatted = formatDateLite (eventEnd st1));
             startDate1 = (if isFirstDay1 then eventStart st1 else timestamp st);
             formattedDate = formatDateLite startDate1;
             found1 = (if isLastDay1 then False else hit);
             segs1 = (if createSegment
                      then AList.update formattedDate
                             \<lparr>seg_startDate = startDate1, seg_start = formattedDate,
                              seg_startTimeMinutes = (if isFirstDay1 then startTimeMinutes e else 0),
                              seg_endTimeMinutes = (if isLastDay1 then endTimeMinutes e else minutesInADay),
                              isFirstDay = isFirstDay1, isLastDay = isLastDay1,
                              seg_height = 0, seg_top = 0\<rparr>
                             (loop_segments st1)
                      else loop_segments st1)
         in st1\<lparr>timestamp := nextMidnight, repeatedEventStartFound := found1,
                loop_segments := segs1\<rparr>)
     | None \<Rightarrow>
        (let isFirstDay1 = (timestamp st = eventStart st);
             isLastDay1 = (end1 = eventEnd st \<and> nextMidnight > end1);
             startDate1 = (if isFirstDay1 then startDate e else timestamp st);
             formattedDate = (if isFirstDay1 then substr0 (start e) 10 else formatDateLite startDate1);
             segs1 = AList.update formattedDate
                       \<lparr>seg_startDate = startDate1, seg_start = formattedDate,
                        seg_startTimeMinutes = (if isFirstDay1 then startTimeMinutes e else 0),
                        seg_endTimeMinutes = (if isLastDay1 then endTimeMinutes e else minutesInADay),
                        isFirstDay = isFirstDay1, isLastDay = isLastDay1,
                        seg_height = 0, seg_top = 0\<rparr>
                       (loop_segments st)
         in st\<lparr>timestamp := nextMidnight, loop_segments := segs1\<rparr>))"

lemma createEventSegments_body_advances:
  "timestamp st < timestamp (createEventSegments_body e end1 st)"
proof -
  have later: "timestamp st < setHours4 (addDays (timestamp st) 1) 0 0 0 0"
  proof -
    have "timestamp st mod 86400000 < 86400000" by simp
    moreover have "timestamp st = (timestamp st div 86400000) * 86400000 + timestamp st mod 86400000"
      by simp
    ultimately show ?thesis
      by (simp add: setHours4_def addDays_def msPerDay_def algebra_simps)
  qed
  show ?thesis
    using later
    by (simp add: createEventSegments_body_def Let_def split: option.splits)
qed

function createEventSegments_while :: "event \<Rightarrow> int \<Rightarrow> seg_loop \<Rightarrow> seg_loop" where
  "createEventSegments_while e end1 st =
    (if timestamp st \<le> end1
     then createEventSegments_while e end1 (createEventSegments_body e end1 st)
     else st)"
  by pat_completeness auto
termination
proof (relation "measure (\<lambda>(e, end1, st). nat (end1 + 1 - timestamp st))")
  show "wf (measure (\<lambda>(e, end1, st). nat (end1 + 1 - timestamp st)))"
    by simp
next
  fix e :: event and end1 :: int and st :: seg_loop
  assume "timestamp st \<le> end1"
  then show "((e, end1, createEventSegments_body e end1 st), (e, end1, st))
               \<in> measure (\<lambda>(e, end1, st). nat (end1 + 1 - timestamp st))"
    using createEventSegments_body_advances [of st e end1] by simp
qed

declare createEventSegments_while.simps [simp del]

definition createEventSegments :: "event \<Rightarrow> date \<Rightarrow> date \<Rightarrow> event" where
  "createEventSegments e viewStartDate viewEndDate =
    (let viewStartTimestamp = getTime viewStartDate;
         viewEndTimestamp = getTime viewEndDate;
         eventStart0 = getTime (startDate e);
         eventEnd0 = (if getHours (endDate e) = 0 \<and> getMinutes (endDate e) = 0
                      then getTime (endDate e) - 1000 else getTime (endDate e));
         timestamp0 = (case repeat_opt e of
                         None \<Rightarrow> max viewStartTimestamp eventStart0
                       | Some r \<Rightarrow> viewStartTimestamp);
         end1 = (case repeat_opt e of
                   None \<Rightarrow> min viewEndTimestamp eventEnd0
                 | Some r \<Rightarrow> min viewEndTimestamp
                               (case until r of Some u \<Rightarrow> getTime u | None \<Rightarrow> viewEndTimestamp));
         st = createEventSegments_while e end1
                \<lparr>timestamp = timestamp0, eventStart = eventStart0, eventEnd = eventEnd0,
                 eventStartAtMidnight = None, repeatedEventStartFound = False,
                 loop_segments = []\<rparr>
     in e\<lparr>segments := Some (loop_segments st)\<rparr>)"

section \<open>Creating and deleting events\<close>

text \<open>
  What the functions read and write of the \<^verbatim>\<open>vuecal\<close> component. \<^verbatim>\<open>emitWithEvent\<close> is the
  component's; its calls are logged in \<open>emitted\<close>. The creation hook \<^verbatim>\<open>onEventCreate\<close>, when
  it is a function, is given the new event and a closure that deletes it later; it returns
  the event as it leaves it and whether its result is truthy. A hook that runs the closure
  during the call is outside the model.
\<close>

record vuecal =
  uid :: int
  eventIdIncrement :: int
  time :: bool
  onEventCreate :: "(event \<Rightarrow> event \<times> bool) option"
  mutableEvents :: "event list"
  view_events :: "event list"
  emitted :: "(string \<times> event) list"
  timeFrom :: int
  timeTo :: int
  timeCellHeight :: int
  timeStep :: int

definition eventDefaults :: event where
  "eventDefaults =
    \<lparr>eid = [], start = [], startDate = 0, startTimeMinutes = 0, end_str = [], endDate = 0,
     endTimeMinutes = 0, title = [], content_str = [], background = False, allDay = False,
     segments = None, repeat_opt = None, occurrences = None, daysCount = 1, deletable = True,
     deleting = False, resizable = True, resizing = False, draggable = True, dragging = False,
     focused = False, top_px = 0, height_px = 0, classes = []\<rparr>"

text \<open>
  \<^verbatim>\<open>stringToDate\<close> of a string is \<^verbatim>\<open>new Date(date.replace(/-/g, '/'))\<close>; the runtime's parser
  is the parameter \<open>parseDate\<close>.
\<close>

definition stringToDate :: "(string \<Rightarrow> date) \<Rightarrow> string \<Rightarrow> date" where
  "stringToDate parseDate s = parseDate (map (\<lambda>c. if c = CHR ''-'' then CHR ''/'' else c) s)"

text \<open>The \<^verbatim>\<open>dateTime\<close> argument: a string, a Date, or anything else.\<close>

datatype dateTime_arg = DateTimeString string | DateTimeDate date | DateTimeOther

datatype create_result = ReturnedFalse | ReturnedUndefined | ReturnedEvent event

text \<open>
  The first two lines of \<^verbatim>\<open>createAnEvent\<close>: a string is parsed, and what is then not a
  Date makes the function return \<^verbatim>\<open>false\<close> (\<open>None\<close> here).
\<close>

definition dateTime_of :: "(string \<Rightarrow> date) \<Rightarrow> dateTime_arg \<Rightarrow> date option" where
  "dateTime_of parseDate dateTime0 =
    (case dateTime0 of
       DateTimeString s \<Rightarrow> Some (stringToDate parseDate s)
     | DateTimeDate d \<Rightarrow> Some d
     | DateTimeOther \<Rightarrow> None)"

text \<open>
  The object literal of \<^verbatim>\<open>createAnEvent\<close>: the defaults, the computed fields, then the
  caller's \<^verbatim>\<open>eventOptions\<close>, which win; they are a function on the record.
\<close>

definition newEvent :: "(string \<Rightarrow> date) \<Rightarrow> date \<Rightarrow> (event \<Rightarrow> event) \<Rightarrow> vuecal \<Rightarrow> event" where
  "newEvent parseDate dateTime eventOptions vc =
    (let hours = getHours dateTime;
         minutes = getMinutes dateTime;
         startTimeMinutes1 = hours * 60 + minutes;
         hoursEnd = hours + defaultEventDuration;
         endTimeMinutes1 = startTimeMinutes1 + 120;
         formattedHours = pad2 hours;
         formattedHoursEnd = pad2 hoursEnd;
         formattedMinutes = pad2 minutes;
         start1 = formatDateLite dateTime
                  @ (if time vc then '' '' @ formattedHours @ '':'' @ formattedMinutes else []);
         end1 = formatDateLite dateTime
                @ (if time vc then '' '' @ formattedHoursEnd @ '':'' @ formattedMinutes else [])
     in eventOptions
          (eventDefaults
            \<lparr>eid := numToString (uid vc) @ ''_'' @ numToString (eventIdIncrement vc),
             start := start1, startDate := dateTime, startTimeMinutes := startTimeMinutes1,
             end_str := end1, endDate := stringToDate parseDate end1,
             endTimeMinutes := endTimeMinutes1, segments := None\<rparr>))"

text \<open>The multiple-day check: \<^verbatim>\<open>daysCount\<close> is written only when the two day keys differ.\<close>

definition updateDaysCount :: "event \<Rightarrow> event" where
  "updateDaysCount ev =
    (if substr0 (start ev) 10 \<noteq> substr0 (end_str ev) 10
     then ev\<lparr>daysCount := countDays (startDate ev) (endDate ev)\<rparr>
     else ev)"

text \<open>
  \<^verbatim>\<open>createAnEvent(dateTime, eventOptions, vuecal)\<close> returns its result and the component
  after the call. \<^verbatim>\<open>vuecal.addEventsToView\<close> is the component's method: the parameter
  \<open>addEventsToView\<close> gives, for the new event and the view's events, the event as the method
  leaves it (it may create its segments) and the view's events after the call.
\<close>

definition createAnEvent ::
  "(string \<Rightarrow> date) \<Rightarrow> (event \<Rightarrow> event list \<Rightarrow> event \<times> event list) \<Rightarrow>
   dateTime_arg \<Rightarrow> (event \<Rightarrow> event) \<Rightarrow> vuecal \<Rightarrow> create_result \<times> vuecal" where
  "createAnEvent parseDate addEventsToView dateTime0 eventOptions vc =
    (case dateTime_of parseDate dateTime0 of
       None \<Rightarrow> (ReturnedFalse, vc)
     | Some dateTime \<Rightarrow>
        (let event0 = newEvent parseDate dateTime eventOptions vc;
             vc1 = vc\<lparr>eventIdIncrement := eventIdIncrement vc + 1\<rparr>;
             hooked = (case onEventCreate vc of
                         Some hook \<Rightarrow> hook event0
                       | None \<Rightarrow> (event0, True))
         in if \<not> snd hooked then (ReturnedUndefined, vc1)
            else
             (let event2 = updateDaysCount (fst hooked);
                  added = addEventsToView event2 (view_events vc1);
                  event3 = fst added
              in (ReturnedEvent event3,
                  vc1\<lparr>mutableEvents := mutableEvents vc1 @ [event3],
                      view_events := snd added,
                      emitted := emitted vc1 @ [(''event-create'', event3), (''event-change'', event3)]\<rparr>))))"

definition deleteAnEvent :: "event \<Rightarrow> vuecal \<Rightarrow> vuecal" where
  "deleteAnEvent ev vc =
    vc\<lparr>emitted := emitted vc @ [(''event-delete'', ev)],
       mutableEvents := filter (\<lambda>e. eid e \<noteq> eid ev) (mutableEvents vc),
       view_events := filter (\<lambda>e. eid e \<noteq> eid ev) (view_events vc)\<rparr>"

section \<open>The geometry of an event\<close>

text \<open>
  \<^verbatim>\<open>Math.round(x)\<close> is the integer nearest to \<open>x\<close>, a half rounded up. The minutes and the
  view's settings are integers and the quotient is exact; a \<^verbatim>\<open>timeStep\<close> of 0 (a division
  by zero) is outside the model.
\<close>

definition Math_round :: "rat \<Rightarrow> int" where
  "Math_round x = \<lfloor>x + 1 / 2\<rfloor>"

definition updateEventPosition :: "event \<Rightarrow> vuecal \<Rightarrow> event" where
  "updateEventPosition ev vc =
    (let minutesFromTop = startTimeMinutes ev - timeFrom vc;
         top1 = Math_round (of_int minutesFromTop * of_int (timeCellHeight vc) / of_int (timeStep vc));
         minutesFromTop2 = min (endTimeMinutes ev) (timeTo vc) - timeFrom vc;
         bottom = Math_round (of_int minutesFromTop2 * of_int (timeCellHeight vc) / of_int (timeStep vc));
         top2 = max top1 0
     in ev\<lparr>top_px := top2, height_px := max (bottom - top2) 5\<rparr>)"

text \<open>
  The copy of the function in \<^verbatim>\<open>src/components/vue-cal/event-utils.js\<close> ends with
  \<^verbatim>\<open>event.height = bottom - event.top\<close>: it has no minimum height.
\<close>

definition updateEventPosition_nomin :: "event \<Rightarrow> vuecal \<Rightarrow> event" where
  "updateEventPosition_nomin ev vc =
    (let minutesFromTop = startTimeMinutes ev - timeFrom vc;
         top1 = Math_round (of_int minutesFromTop * of_int (timeCellHeight vc) / of_int (timeStep vc));
         minutesFromTop2 = min (endTimeMinutes ev) (timeTo vc) - timeFrom vc;
         bottom = Math_round (of_int minutesFromTop2 * of_int (timeCellHeight vc) / of_int (timeStep vc));
         top2 = max top1 0
     in ev\<lparr>top_px := top2, height_px := bottom - top2\<rparr>)"

text \<open>
  The specification's formula for the pixel of a minute of the day, without rounding:
  \<^verbatim>\<open>(minutes - timeFrom) * timeCellHeight / timeStep\<close>; for the top it is taken at the
  start minutes and clamped to a minimum of 0.
\<close>

definition spec_pixel :: "int \<Rightarrow> vuecal \<Rightarrow> rat" where
  "spec_pixel minutes vc =
    of_int (minutes - timeFrom vc) * of_int (timeCellHeight vc) / of_int (timeStep vc)"

definition spec_top :: "event \<Rightarrow> vuecal \<Rightarrow> rat" where
  "spec_top ev vc = max (spec_pixel (startTimeMinutes ev) vc) 0"

section \<open>Whether an event is in a range of dates\<close>

text \<open>\<^verbatim>\<open>event.start.indexOf(':') === -1\<close> is: the string has no colon.\<close>

definition eventInRange :: "event \<Rightarrow> date \<Rightarrow> date \<Rightarrow> bool" where
  "eventInRange ev start0 end0 =
    (if allDay ev \<or> CHR '':'' \<notin> set (start ev)
     then (let eventStart1 = setHours4 (startDate ev) 0 0 0 0
           in eventStart1 \<ge> setHours4 start0 0 0 0 0 \<and> eventStart1 \<le> setHours4 end0 0 0 0 0)
     else (let startTimestamp = getTime (startDate ev);
               endTimestamp = getTime (endDate ev)
           in startTimestamp < getTime end0 \<and> endTimestamp > getTime start0))"







section \<open>The overlaps of the events of a cell\<close>

text \<open>
  \<^verbatim>\<open>cellOverlaps\<close> is an object keyed by event id; each value has the list of the ids the
  event overlaps, the event's \<^verbatim>\<open>start\<close> string and its position. The object is an
  association list in insertion order. \<^verbatim>\<open>[...new Set(xs)]\<close> keeps the first occurrence of
  each element; \<^verbatim>\<open>xs.splice(xs.indexOf(x), 1)\<close> removes the first occurrence of \<open>x\<close>.
\<close>

record overlap =
  overlaps :: "string list"
  ov_start :: string
  position :: int

type_synonym overlap_table = "(string \<times> overlap) list"

record cell_options =
  overlapsPerTimeStep :: bool
  opt_timeStep :: int

definition dedupe :: "'a list \<Rightarrow> 'a list" where
  "dedupe xs = rev (remdups (rev xs))"

text \<open>\<^verbatim>\<open>if (!cellOverlaps[e._eid]) Vue.set(cellOverlaps, e._eid, {...})\<close>\<close>

definition ensure_entry :: "event \<Rightarrow> overlap_table \<Rightarrow> overlap_table" where
  "ensure_entry e t =
    (case map_of t (eid e) of
       None \<Rightarrow> AList.update (eid e) \<lparr>overlaps = [], ov_start = start e, position = 0\<rparr> t
     | Some r \<Rightarrow> t)"

text \<open>
  The body of the inner \<^verbatim>\<open>forEach\<close>, for the event \<open>e\<close> of the outer loop and a later event
  \<open>e2\<close>; \<open>pair_overlaps\<close> is the condition of its \<^verbatim>\<open>if\<close>, with the two constants before it.
  The range test is a parameter, since the two copies of the file differ in it only.
  The entries of both events exist when their lists are written: \<^const>\<open>AList.map_entry\<close>
  changes the value of a key that is there.
\<close>

definition pair_overlaps ::
  "(event \<Rightarrow> date \<Rightarrow> date \<Rightarrow> bool) \<Rightarrow> cell_options \<Rightarrow> event \<Rightarrow> event \<Rightarrow> bool" where
  "pair_overlaps inRange options e e2 =
    (let eventIsInRange = inRange e2 (startDate e) (endDate e);
         eventsInSameTimeStep =
           (if overlapsPerTimeStep options
            then datesInSameTimeStep (startDate e) (startDate e2) (opt_timeStep options)
            else True)
     in \<not> background e \<and> \<not> allDay e \<and> \<not> background e2 \<and> \<not> allDay e2
        \<and> eventIsInRange \<and> eventsInSameTimeStep)"

definition compare_pair ::
  "(event \<Rightarrow> date \<Rightarrow> date \<Rightarrow> bool) \<Rightarrow> cell_options \<Rightarrow> event \<Rightarrow> event \<Rightarrow> overlap_table \<Rightarrow> overlap_table" where
  "compare_pair inRange options e e2 t0 =
    (let t = ensure_entry e2 t0
     in if pair_overlaps inRange options e e2
        then AList.map_entry (eid e2)
               (\<lambda>r. r\<lparr>overlaps := dedupe (overlaps r @ [eid e]), position := position r + 1\<rparr>)
               (AList.map_entry (eid e)
                 (\<lambda>r. r\<lparr>overlaps := dedupe (overlaps r @ [eid e2])\<rparr>) t)
        else AList.map_entry (eid e2)
               (\<lambda>r. r\<lparr>overlaps := remove1 (eid e) (overlaps r), position := position r - 1\<rparr>)
               (AList.map_entry (eid e)
                 (\<lambda>r. r\<lparr>overlaps := remove1 (eid e2) (overlaps r)\<rparr>) t))"

text \<open>
  The body of the outer \<^verbatim>\<open>forEach\<close>: \<open>comparisonArray\<close> is the array after its
  \<^verbatim>\<open>shift()\<close>, the events after \<open>e\<close>.
\<close>

definition compare_event ::
  "(event \<Rightarrow> date \<Rightarrow> date \<Rightarrow> bool) \<Rightarrow> cell_options \<Rightarrow> event \<Rightarrow> event list \<Rightarrow> overlap_table \<Rightarrow> overlap_table" where
  "compare_event inRange options e comparisonArray t =
    fold (compare_pair inRange options e) comparisonArray
      (AList.map_entry (eid e) (\<lambda>r. r\<lparr>position := 0\<rparr>) (ensure_entry e t))"

fun compare_events ::
  "(event \<Rightarrow> date \<Rightarrow> date \<Rightarrow> bool) \<Rightarrow> cell_options \<Rightarrow> event list \<Rightarrow> overlap_table \<Rightarrow> overlap_table" where
  "compare_events inRange options [] t = t"
| "compare_events inRange options (e # comparisonArray) t =
     compare_events inRange options comparisonArray
       (compare_event inRange options e comparisonArray t)"

subsection \<open>getOverlapsStreak\<close>

text \<open>
  \<^verbatim>\<open>cellOverlaps[id3].overlaps\<close> raises a TypeError when the table has no entry for
  \<open>id3\<close>. The inner \<^verbatim>\<open>forEach\<close> pushes on \<open>removeFromStreak\<close>; the outer one skips an id
  that is already in it.
\<close>

fun streak_inner :: "overlap_table \<Rightarrow> string \<Rightarrow> string list \<Rightarrow> string list \<Rightarrow> js_error + string list" where
  "streak_inner t ident [] removeFromStreak = Inr removeFromStreak"
| "streak_inner t ident (id3 # rest) removeFromStreak =
     (case map_of t id3 of
        None \<Rightarrow> Inl TypeError
      | Some r \<Rightarrow>
          streak_inner t ident rest
            (if ident \<in> set (overlaps r) then removeFromStreak else removeFromStreak @ [id3]))"

fun streak_outer :: "overlap_table \<Rightarrow> string list \<Rightarrow> string list \<Rightarrow> string list \<Rightarrow> js_error + string list" where
  "streak_outer t ovs [] removeFromStreak = Inr removeFromStreak"
| "streak_outer t ovs (ident # rest) removeFromStreak =
     (if ident \<in> set removeFromStreak then streak_outer t ovs rest removeFromStreak
      else (case streak_inner t ident (filter (\<lambda>id2. id2 \<noteq> ident) ovs) removeFromStreak of
              Inl err \<Rightarrow> Inl err
            | Inr removed \<Rightarrow> streak_outer t ovs rest removed))"

definition getOverlapsStreak :: "overlap \<Rightarrow> overlap_table \<Rightarrow> js_error + int" where
  "getOverlapsStreak ev t =
    (case streak_outer t (overlaps ev) (overlaps ev) [] of
       Inl err \<Rightarrow> Inl err
     | Inr removeFromStreak \<Rightarrow>
         Inr (int (length (overlaps ev)) + 1 - int (length (dedupe removeFromStreak))))"

subsection \<open>Positions and the longest streak\<close>

text \<open>
  A row item is the pair of an id and a start string. The comparator is the source's; the
  sort is an insertion sort by it. For items with distinct ids the comparator is a total
  order (by start, then by id downwards), so every sorting algorithm gives the same row.
  \<^verbatim>\<open>findIndex\<close> gives the index of the first item that satisfies the test, or \<open>-1\<close>.
\<close>

definition row_compare :: "string \<times> string \<Rightarrow> string \<times> string \<Rightarrow> int" where
  "row_compare a b =
    (if snd a < snd b then - 1
     else if snd a > snd b then 1
     else if fst a > fst b then - 1 else 1)"

fun row_insert :: "string \<times> string \<Rightarrow> (string \<times> string) list \<Rightarrow> (string \<times> string) list" where
  "row_insert a [] = [a]"
| "row_insert a (b # bs) = (if row_compare a b < 0 then a # b # bs else b # row_insert a bs)"

definition row_sort :: "(string \<times> string) list \<Rightarrow> (string \<times> string) list" where
  "row_sort xs = foldr row_insert xs []"

fun findIndex :: "('a \<Rightarrow> bool) \<Rightarrow> 'a list \<Rightarrow> int" where
  "findIndex P [] = - 1"
| "findIndex P (x # xs) =
     (if P x then 0 else (let i = findIndex P xs in if i < 0 then - 1 else i + 1))"

text \<open>
  \<^verbatim>\<open>item.overlaps.map(id2 => ({ id: id2, start: cellOverlaps[id2].start }))\<close>: a TypeError
  when an id has no entry.
\<close>

fun overlapsRow :: "overlap_table \<Rightarrow> string list \<Rightarrow> js_error + (string \<times> string) list" where
  "overlapsRow t [] = Inr []"
| "overlapsRow t (id2 # rest) =
     (case map_of t id2 of
        None \<Rightarrow> Inl TypeError
      | Some r \<Rightarrow> (case overlapsRow t rest of
                     Inl err \<Rightarrow> Inl err
                   | Inr row \<Rightarrow> Inr ((id2, ov_start r) # row)))"

text \<open>The body of the \<^verbatim>\<open>for (const id in cellOverlaps)\<close> loop, on the table and \<open>longestStreak\<close>.\<close>

definition position_step :: "string \<Rightarrow> overlap_table \<times> int \<Rightarrow> js_error + overlap_table \<times> int" where
  "position_step ident s =
    (case map_of (fst s) ident of
       None \<Rightarrow> Inl TypeError
     | Some item \<Rightarrow>
        (case overlapsRow (fst s) (overlaps item) of
           Inl err \<Rightarrow> Inl err
         | Inr row0 \<Rightarrow>
            (let row = row_sort (row0 @ [(ident, ov_start item)]);
                 item1 = item\<lparr>position := findIndex (\<lambda>x. fst x = ident) row\<rparr>;
                 t1 = AList.update ident item1 (fst s)
             in case getOverlapsStreak item1 t1 of
                  Inl err \<Rightarrow> Inl err
                | Inr streak \<Rightarrow> Inr (t1, max streak (snd s)))))"

fun position_loop :: "string list \<Rightarrow> overlap_table \<times> int \<Rightarrow> js_error + overlap_table \<times> int" where
  "position_loop [] s = Inr s"
| "position_loop (ident # rest) s =
     (case position_step ident s of
        Inl err \<Rightarrow> Inl err
      | Inr s1 \<Rightarrow> position_loop rest s1)"

definition checkCellOverlappingEvents_with ::
  "(event \<Rightarrow> date \<Rightarrow> date \<Rightarrow> bool) \<Rightarrow> event list \<Rightarrow> cell_options \<Rightarrow> js_error + overlap_table \<times> int" where
  "checkCellOverlappingEvents_with inRange cellEvents options =
    (let cellOverlaps = compare_events inRange options cellEvents []
     in position_loop (map fst cellOverlaps) (cellOverlaps, 0))"

definition checkCellOverlappingEvents :: "event list \<Rightarrow> cell_options \<Rightarrow> js_error + overlap_table \<times> int" where
  "checkCellOverlappingEvents cellEvents options =
    checkCellOverlappingEvents_with eventInRange cellEvents options"

section \<open>The same utilities in a time zone whose offset changes\<close>

text \<open>
  Where the offset of the civil time to UTC changes (daylight saving), a \<^verbatim>\<open>Date\<close> is its
  count of milliseconds in UTC and the runtime converts at every call. A zone gives, in
  minutes, the offset at a UTC instant (ECMAScript's \<^verbatim>\<open>LocalTZA(t, true)\<close>) and the offset
  the runtime takes for a local time value (\<^verbatim>\<open>LocalTZA(t, false)\<close>, which decides what
  becomes of a local time that the clock skips or shows twice):
  \<^verbatim>\<open>LocalTime(t) = t + LocalTZA(t, true)\<close> and \<^verbatim>\<open>UTC(t) = t - LocalTZA(t, false)\<close>.
  Nothing is assumed of the two functions.
\<close>

record zone =
  utc_offset :: "int \<Rightarrow> int"
  local_offset :: "int \<Rightarrow> int"

definition localTime :: "zone \<Rightarrow> date \<Rightarrow> int" where
  "localTime z t = t + utc_offset z t * 60000"

definition utcTime :: "zone \<Rightarrow> int \<Rightarrow> date" where
  "utcTime z lt = lt - local_offset z lt * 60000"

definition getFullYear_in :: "zone \<Rightarrow> date \<Rightarrow> int" where
  "getFullYear_in z t = fst (civil_from_days (localTime z t div msPerDay))"

definition getMonth_in :: "zone \<Rightarrow> date \<Rightarrow> int" where
  "getMonth_in z t = fst (snd (civil_from_days (localTime z t div msPerDay))) - 1"

definition getDate_in :: "zone \<Rightarrow> date \<Rightarrow> int" where
  "getDate_in z t = snd (snd (civil_from_days (localTime z t div msPerDay)))"

text \<open>\<^verbatim>\<open>getTimezoneOffset()\<close> is \<^verbatim>\<open>(t - LocalTime(t)) / msPerMinute\<close>.\<close>

definition getTimezoneOffset_in :: "zone \<Rightarrow> date \<Rightarrow> int" where
  "getTimezoneOffset_in z t = - utc_offset z t"

text \<open>
  \<^verbatim>\<open>setHours\<close> replaces the time within the local day and converts the local time value
  back to UTC.
\<close>

definition setHours4_in :: "zone \<Rightarrow> date \<Rightarrow> int \<Rightarrow> int \<Rightarrow> int \<Rightarrow> int \<Rightarrow> date" where
  "setHours4_in z t h m s ms =
    utcTime z ((localTime z t div msPerDay) * msPerDay + h * 3600000 + m * 60000 + s * 1000 + ms)"

definition setHours3_in :: "zone \<Rightarrow> date \<Rightarrow> int \<Rightarrow> int \<Rightarrow> int \<Rightarrow> date" where
  "setHours3_in z t h m s = setHours4_in z t h m s (localTime z t mod 1000)"

text \<open>
  \<^verbatim>\<open>addDays\<close> and \<^verbatim>\<open>subtractDays\<close>: \<^verbatim>\<open>date.setDate(date.getDate() + days)\<close> on a copy of the
  date. \<^verbatim>\<open>setDate\<close> makes the local time value of the day \<^verbatim>\<open>MakeDay(year, month, date + days)\<close>,
  which is the local day number moved by \<open>days\<close>, with the time within the day kept, and
  converts it back to UTC.
\<close>

definition addDays_in :: "zone \<Rightarrow> date \<Rightarrow> int \<Rightarrow> date" where
  "addDays_in z t days = utcTime z (localTime z t + days * msPerDay)"

definition subtractDays_in :: "zone \<Rightarrow> date \<Rightarrow> int \<Rightarrow> date" where
  "subtractDays_in z t days = utcTime z (localTime z t - days * msPerDay)"

definition formatDateLite_in :: "zone \<Rightarrow> date \<Rightarrow> string" where
  "formatDateLite_in z date =
    (let m = getMonth_in z date + 1;
         d = getDate_in z date
     in numToString (getFullYear_in z date) @ ''-'' @ (if m < 10 then ''0'' else '''') @ numToString m
        @ ''-'' @ (if d < 10 then ''0'' else '''') @ numToString d)"

definition countDays_in :: "zone \<Rightarrow> date \<Rightarrow> date \<Rightarrow> int" where
  "countDays_in z start0 end0 =
    (let start = setHours3_in z start0 0 0 0;
         end1 = setHours3_in z end0 0 0 1;
         timezoneDiffMs = (getTimezoneOffset_in z end1 - getTimezoneOffset_in z start) * 60 * 1000
     in ceil_div (end1 - start - timezoneDiffMs) (24 * 3600 * 1000))"

definition addEventSegment_in :: "zone \<Rightarrow> event \<Rightarrow> event \<times> string" where
  "addEventSegment_in z e =
    (let segs0 = (case segments e of
                    None \<Rightarrow>
                      [(substr0 (start e) 10,
                        \<lparr>seg_startDate = startDate e, seg_start = substr0 (start e) 10,
                         seg_startTimeMinutes = startTimeMinutes e,
                         seg_endTimeMinutes = minutesInADay,
                         isFirstDay = True, isLastDay = False, seg_height = 0, seg_top = 0\<rparr>)]
                  | Some segs \<Rightarrow> segs);
         prevKey = formatDateLite_in z (endDate e);
         segs1 = (case map_of segs0 prevKey of
                    Some previousSegment \<Rightarrow>
                      AList.update prevKey
                        (previousSegment\<lparr>isLastDay := False, seg_endTimeMinutes := minutesInADay\<rparr>)
                        segs0
                  | None \<Rightarrow> segs0);
         startDate0 = addDays_in z (endDate e) 1;
         endDate1 = startDate0;
         formattedDate = formatDateLite_in z startDate0;
         startDate1 = setHours4_in z startDate0 0 0 0 0;
         segs2 = AList.update formattedDate
                   \<lparr>seg_startDate = startDate1, seg_start = formattedDate,
                    seg_startTimeMinutes = 0, seg_endTimeMinutes = endTimeMinutes e,
                    isFirstDay = False, isLastDay = True, seg_height = 0, seg_top = 0\<rparr>
                   segs1
     in (e\<lparr>segments := Some segs2,
           daysCount := int (length segs2),
           endDate := endDate1,
           end_str := formattedDate @ '' '' @ formatTime (endTimeMinutes e)\<rparr>,
         formattedDate))"

definition removeEventSegment_in :: "zone \<Rightarrow> event \<Rightarrow> js_error + event \<times> string" where
  "removeEventSegment_in z e =
    (case segments e of
       None \<Rightarrow> Inl TypeError
     | Some segs \<Rightarrow>
        (let segmentsCount0 = int (length segs) in
         if segmentsCount0 \<le> 1 then Inr (e, substr0 (end_str e) 10)
         else
          (let segs1 = AList.delete (substr0 (end_str e) 10) segs;
               segmentsCount = segmentsCount0 - 1;
               endDate1 = subtractDays_in z (endDate e) 1;
               formattedDate = formatDateLite_in z endDate1;
               segs2 = (if segmentsCount = 0 then None
                        else (case map_of segs1 formattedDate of
                                Some previousSegment \<Rightarrow>
                                  Some (AList.update formattedDate
                                         (previousSegment\<lparr>isLastDay := True,
                                            seg_endTimeMinutes := endTimeMinutes e\<rparr>)
                                         segs1)
                              | None \<Rightarrow> Some segs1))
           in Inr (e\<lparr>segments := segs2,
                     daysCount := (if segmentsCount = 0 then 1 else segmentsCount),
                     endDate := endDate1,
                     end_str := formattedDate @ '' '' @ formatTime (endTimeMinutes e)\<rparr>,
                   formattedDate))))"

text \<open>
  A zone that keeps one offset of \<open>c\<close> minutes. For \<open>c = 0\<close> the utilities above are the ones
  of the first section.
\<close>

definition fixed_zone :: "int \<Rightarrow> zone" where
  "fixed_zone c = \<lparr>utc_offset = (\<lambda>t. c), local_offset = (\<lambda>lt. c)\<rparr>"

text \<open>
  By how many minutes the clock that the runtime reads at the instant of a local time value
  is ahead of the offset it took for this value: 0 for a local time the clock shows.
\<close>

definition offset_gap :: "zone \<Rightarrow> int \<Rightarrow> int" where
  "offset_gap z lt = utc_offset z (utcTime z lt) - local_offset z lt"

section \<open>The invariant of the day count\<close>

text \<open>
  The specification's invariant: \<^verbatim>\<open>daysCount\<close> equals the number of keys of \<^verbatim>\<open>segments\<close>
  when segments exist, else 1. The keys of the model's association list are distinct as
  an object's are, which is part of \<open>segments_keys_distinct\<close>.
\<close>

definition daysCount_matches :: "event \<Rightarrow> bool" where
  "daysCount_matches e =
    (case segments e of
       None \<Rightarrow> daysCount e = 1
     | Some segs \<Rightarrow> daysCount e = int (length segs))"

definition segments_keys_distinct :: "event \<Rightarrow> bool" where
  "segments_keys_distinct e =
    (case segments e of
       None \<Rightarrow> True
     | Some segs \<Rightarrow> distinct (map fst segs))"

section \<open>The overlap table as a relation\<close>

text \<open>
  The pairs \<open>(i, j)\<close> with \<open>j\<close> in the \<^verbatim>\<open>overlaps\<close> of the entry of \<open>i\<close>; that no \<^verbatim>\<open>overlaps\<close>
  list holds an id twice; and the events that can overlap others: those that are neither
  background nor all-day events.
\<close>

definition overlap_rel :: "overlap_table \<Rightarrow> (string \<times> string) set" where
  "overlap_rel t = {(i, j). \<exists>r. map_of t i = Some r \<and> j \<in> set (overlaps r)}"

definition lists_distinct :: "overlap_table \<Rightarrow> bool" where
  "lists_distinct t = (\<forall>i r. map_of t i = Some r \<longrightarrow> distinct (overlaps r))"

definition participates :: "event \<Rightarrow> bool" where
  "participates e = (\<not> background e \<and> \<not> allDay e)"

text \<open>
  The invariant of the two nested loops, for the set \<open>S\<close> of the cell's events: the keys
  are distinct, no list holds an id twice, the relation is symmetric, every id of a list
  has an entry, and only events that participate are related.
\<close>

definition table_inv :: "event set \<Rightarrow> overlap_table \<Rightarrow> bool" where
  "table_inv S t =
    (distinct (map fst t) \<and> lists_distinct t \<and> sym (overlap_rel t)
     \<and> Range (overlap_rel t) \<subseteq> fst ` set t
     \<and> overlap_rel t
         \<subseteq> {(i, j). \<exists>x y. i = eid x \<and> j = eid y \<and> x \<in> S \<and> y \<in> S
                        \<and> participates x \<and> participates y})"

text \<open>What the position loop leaves as it is: the keys in their order, the lists and the starts.\<close>

definition table_shape :: "overlap_table \<Rightarrow> (string \<times> string list \<times> string) list" where
  "table_shape t = map (\<lambda>(i, r). (i, overlaps r, ov_start r)) t"

text \<open>Every id of a list of the table has an entry in the table.\<close>

definition closed_table :: "overlap_table \<Rightarrow> bool" where
  "closed_table t = (\<forall>i r. map_of t i = Some r \<longrightarrow> set (overlaps r) \<subseteq> fst ` set t)"

text \<open>
  The position of the entry \<open>r\<close> of the id \<open>i\<close> is the index of \<open>i\<close> in the sorted row of
  its overlaps and itself, and lies between 0 and the number of its overlaps.
\<close>

definition pos_ok :: "overlap_table \<Rightarrow> string \<Rightarrow> overlap \<Rightarrow> bool" where
  "pos_ok t i r =
    (\<exists>row0. overlapsRow t (overlaps r) = Inr row0
       \<and> position r = findIndex (\<lambda>x. fst x = i) (row_sort (row0 @ [(i, ov_start r)]))
       \<and> 0 \<le> position r \<and> position r \<le> int (length (overlaps r)))"

section \<open>Example values\<close>

text \<open>An event of 2019-11-02, 18:00 to 20:00, as \<^verbatim>\<open>createAnEvent\<close> builds it.\<close>

definition example_event :: event where
  "example_event =
    eventDefaults
      \<lparr>eid := ''1_0'', start := ''2019-11-02 18:00'', startDate := mkDate 2019 10 2 18 0,
       startTimeMinutes := 1080, end_str := ''2019-11-02 20:00'',
       endDate := mkDate 2019 10 2 20 0, endTimeMinutes := 1200\<rparr>"

definition example_first_segment :: segment where
  "example_first_segment =
    \<lparr>seg_startDate = mkDate 2019 10 2 18 0, seg_start = ''2019-11-02'',
     seg_startTimeMinutes = 1080, seg_endTimeMinutes = 1200,
     isFirstDay = True, isLastDay = True, seg_height = 0, seg_top = 0\<rparr>"

text \<open>The same event grown to 2019-11-03 20:00, with its two segments.\<close>

definition example_last_segment :: segment where
  "example_last_segment =
    \<lparr>seg_startDate = mkDate 2019 10 3 0 0, seg_start = ''2019-11-03'',
     seg_startTimeMinutes = 0, seg_endTimeMinutes = 1200,
     isFirstDay = False, isLastDay = True, seg_height = 0, seg_top = 0\<rparr>"

definition example_two_days :: event where
  "example_two_days =
    example_event
      \<lparr>end_str := ''2019-11-03 20:00'', endDate := mkDate 2019 10 3 20 0, daysCount := 2,
       segments := Some [(''2019-11-02'',
                          example_first_segment\<lparr>seg_endTimeMinutes := 1440, isLastDay := False\<rparr>),
                         (''2019-11-03'', example_last_segment)]\<rparr>"

text \<open>The same day with no duration: start and end at 18:00.\<close>

definition example_instant :: event where
  "example_instant =
    example_event
      \<lparr>end_str := ''2019-11-02 18:00'', endDate := mkDate 2019 10 2 18 0, endTimeMinutes := 1080\<rparr>"

text \<open>An event of 2019-11-02, 00:10 to 02:10.\<close>

definition example_early_event :: event where
  "example_early_event =
    eventDefaults
      \<lparr>eid := ''1_1'', start := ''2019-11-02 00:10'', startDate := mkDate 2019 10 2 0 10,
       startTimeMinutes := 10, end_str := ''2019-11-02 02:10'',
       endDate := mkDate 2019 10 2 2 10, endTimeMinutes := 130\<rparr>"

text \<open>
  An event of four days, 2019-11-02 18:00 to 2019-11-05 02:00, with the \<^verbatim>\<open>daysCount\<close> that
  \<^verbatim>\<open>countDays\<close> gives it.
\<close>

definition example_four_days :: event where
  "example_four_days =
    eventDefaults
      \<lparr>eid := ''1_2'', start := ''2019-11-02 18:00'', startDate := mkDate 2019 10 2 18 0,
       startTimeMinutes := 1080, end_str := ''2019-11-05 02:00'',
       endDate := mkDate 2019 10 5 2 0, endTimeMinutes := 120, daysCount := 4\<rparr>"

text \<open>
  A component with the whole day in its view, 40 pixels for a time step of 30 minutes,
  no creation hook; and the same with a hook that refuses every event.
\<close>

definition example_vuecal :: vuecal where
  "example_vuecal =
    \<lparr>uid = 1, eventIdIncrement = 0, time = True, onEventCreate = None, mutableEvents = [],
     view_events = [], emitted = [], timeFrom = 0, timeTo = 1440, timeCellHeight = 40,
     timeStep = 30\<rparr>"

definition example_vuecal_veto :: vuecal where
  "example_vuecal_veto = example_vuecal\<lparr>onEventCreate := Some (\<lambda>ev. (ev, False))\<rparr>"

text \<open>
  The table of the source's comment on streaks: three events, 1 overlaps 2 and 3, and
  2 and 3 do not overlap.
\<close>

definition example_table :: overlap_table where
  "example_table =
    [(''1'', \<lparr>overlaps = [''2'', ''3''], ov_start = ''2019-11-02 09:00'', position = 0\<rparr>),
     (''2'', \<lparr>overlaps = [''1''], ov_start = ''2019-11-02 09:30'', position = 1\<rparr>),
     (''3'', \<lparr>overlaps = [''1''], ov_start = ''2019-11-02 10:30'', position = 1\<rparr>)]"

text \<open>
  A cell of 2019-11-02 with three events: 09:00 to 10:00, 09:30 to 10:30 in the background,
  and 09:45 to 10:15; and the table the overlap pass gives for it.
\<close>

definition example_cell_first :: event where
  "example_cell_first =
    eventDefaults
      \<lparr>eid := ''1_0'', start := ''2019-11-02 09:00'', startDate := mkDate 2019 10 2 9 0,
       startTimeMinutes := 540, end_str := ''2019-11-02 10:00'',
       endDate := mkDate 2019 10 2 10 0, endTimeMinutes := 600\<rparr>"

definition example_cell_background :: event where
  "example_cell_background =
    eventDefaults
      \<lparr>eid := ''1_1'', start := ''2019-11-02 09:30'', startDate := mkDate 2019 10 2 9 30,
       startTimeMinutes := 570, end_str := ''2019-11-02 10:30'',
       endDate := mkDate 2019 10 2 10 30, endTimeMinutes := 630, background := True\<rparr>"

definition example_cell_third :: event where
  "example_cell_third =
    eventDefaults
      \<lparr>eid := ''1_2'', start := ''2019-11-02 09:45'', startDate := mkDate 2019 10 2 9 45,
       startTimeMinutes := 585, end_str := ''2019-11-02 10:15'',
       endDate := mkDate 2019 10 2 10 15, endTimeMinutes := 615\<rparr>"

definition example_cell :: "event list" where
  "example_cell = [example_cell_first, example_cell_background, example_cell_third]"

definition example_options :: cell_options where
  "example_options = \<lparr>overlapsPerTimeStep = False, opt_timeStep = 30\<rparr>"

definition example_cell_overlaps :: overlap_table where
  "example_cell_overlaps =
    [(''1_0'', \<lparr>overlaps = [''1_2''], ov_start = ''2019-11-02 09:00'', position = 0\<rparr>),
     (''1_1'', \<lparr>overlaps = [], ov_start = ''2019-11-02 09:30'', position = 0\<rparr>),
     (''1_2'', \<lparr>overlaps = [''1_0''], ov_start = ''2019-11-02 09:45'', position = 1\<rparr>)]"

text \<open>
  The same cell with the background event under the id of the first event: two events that
  share an id.
\<close>

definition example_cell_shared_background :: event where
  "example_cell_shared_background = example_cell_background\<lparr>eid := ''1_0''\<rparr>"

definition example_cell_shared_id :: "event list" where
  "example_cell_shared_id = [example_cell_shared_background, example_cell_first, example_cell_third]"

text \<open>
  A zone three hours behind UTC whose clock goes from 00:00 to 01:00 at the start of
  2018-11-04 (03:00 UTC), as in Sao Paulo: the local times of the skipped hour are taken with
  the offset before the change. \<^const>\<open>mkDate\<close> counts the milliseconds of a civil date and
  time, here of UTC for the instant of the change and of the local clock for the local time
  value. And the instant of 00:30 of the day before, 03:30 UTC.
\<close>

definition example_dst_zone :: zone where
  "example_dst_zone =
    \<lparr>utc_offset = (\<lambda>t. if t < mkDate 2018 10 4 3 0 then - 180 else - 120),
     local_offset = (\<lambda>lt. if lt < mkDate 2018 10 4 1 0 then - 180 else - 120)\<rparr>"

definition example_dst_instant :: date where
  "example_dst_instant = mkDate 2018 10 3 3 30"

section \<open>Evaluation of the temporal utilities\<close>

lemma formatDateLite_nov2: "formatDateLite (mkDate 2019 10 2 20 0) = ''2019-11-02''"
  by code_simp

lemma formatDateLite_nov3: "formatDateLite (mkDate 2019 10 3 20 0) = ''2019-11-03''"
  by code_simp

lemma formatDateLite_nov2_next: "formatDateLite (addDays (mkDate 2019 10 2 20 0) 1) = ''2019-11-03''"
  by code_simp

lemma formatDateLite_nov3_next: "formatDateLite (addDays (mkDate 2019 10 3 20 0) 1) = ''2019-11-04''"
  by code_simp

lemma formatTime_1200: "formatTime 1200 = ''20:00''"
  by code_simp

lemma subtractDays_addDays: "subtractDays (addDays t n) n = t"
  by (simp add: subtractDays_def addDays_def)

section \<open>The zone without offset changes\<close>

lemma fixed_zone_localTime: "localTime (fixed_zone c) t = t + c * 60000"
  by (simp add: localTime_def fixed_zone_def)

lemma fixed_zone_utcTime: "utcTime (fixed_zone c) lt = lt - c * 60000"
  by (simp add: utcTime_def fixed_zone_def)


lemma fixed_zone_formatDateLite: "formatDateLite_in (fixed_zone c) t = formatDateLite (t + c * 60000)"
  by (simp add: formatDateLite_in_def formatDateLite_def getMonth_in_def getDate_in_def
      getFullYear_in_def getMonth_def getDate_def getFullYear_def fixed_zone_localTime)

lemma fixed_zone_addDays: "addDays_in (fixed_zone c) t n = addDays t n"
  by (simp add: addDays_in_def addDays_def fixed_zone_localTime fixed_zone_utcTime)

lemma fixed_zone_subtractDays: "subtractDays_in (fixed_zone c) t n = subtractDays t n"
  by (simp add: subtractDays_in_def subtractDays_def fixed_zone_localTime fixed_zone_utcTime)

lemma fixed_zone_setHours4:
  "setHours4_in (fixed_zone c) t h m s ms = setHours4 (t + c * 60000) h m s ms - c * 60000"
  by (simp add: setHours4_in_def setHours4_def fixed_zone_localTime fixed_zone_utcTime)



lemma fixed_zone_addEventSegment: "addEventSegment_in (fixed_zone 0) e = addEventSegment e"
  by (simp add: addEventSegment_in_def addEventSegment_def fixed_zone_formatDateLite
      fixed_zone_addDays fixed_zone_setHours4)

lemma fixed_zone_removeEventSegment: "removeEventSegment_in (fixed_zone 0) e = removeEventSegment e"
proof -
  have f: "formatDateLite_in (fixed_zone 0) t = formatDateLite t" for t
    by (simp add: fixed_zone_formatDateLite)
  show ?thesis
    by (simp only: removeEventSegment_in_def removeEventSegment_def f fixed_zone_subtractDays)
qed

section \<open>Adding then removing a day segment\<close>

lemma length_update_fresh: "k \<notin> fst ` set al \<Longrightarrow> length (AList.update k v al) = Suc (length al)"
  by (induction al) auto

lemma length_update_present: "k \<in> fst ` set al \<Longrightarrow> length (AList.update k v al) = length al"
  by (induction al) auto

lemma substr0_key: "length k = n \<Longrightarrow> substr0 (k @ r) n = k"
  by (simp add: substr0_def)

text \<open>
  \<^verbatim>\<open>removeEventSegment\<close> on an event whose last segment \<^verbatim>\<open>addEventSegment\<close> has just added
  under the key \<open>nk\<close>, to the segments \<open>segs1\<close>.
\<close>

lemma removeEventSegment_in_after_add:
  assumes ne: "segs1 \<noteq> []"
    and fresh1: "nk \<notin> fst ` set segs1"
    and len: "length nk = 10"
    and e1: "segments e1 = Some (AList.update nk new segs1)"
            "end_str e1 = nk @ '' '' @ ft"
  shows "removeEventSegment_in z e1 =
    Inr (e1\<lparr>segments :=
               (case map_of segs1 (formatDateLite_in z (subtractDays_in z (endDate e1) 1)) of
                  Some previousSegment \<Rightarrow>
                    Some (AList.update (formatDateLite_in z (subtractDays_in z (endDate e1) 1))
                           (previousSegment\<lparr>isLastDay := True,
                              seg_endTimeMinutes := endTimeMinutes e1\<rparr>) segs1)
                | None \<Rightarrow> Some segs1),
             daysCount := int (length segs1),
             endDate := subtractDays_in z (endDate e1) 1,
             end_str := formatDateLite_in z (subtractDays_in z (endDate e1) 1) @ '' ''
                        @ formatTime (endTimeMinutes e1)\<rparr>,
         formatDateLite_in z (subtractDays_in z (endDate e1) 1))"
proof -
  have len2: "length (AList.update nk new segs1) = Suc (length segs1)"
    using fresh1 by (rule length_update_fresh)
  have del: "AList.delete nk (AList.update nk new segs1) = segs1"
    using fresh1 by (simp add: delete_update_same)
  have key: "substr0 (end_str e1) 10 = nk"
    using len by (simp add: e1(2) substr0_key)
  show ?thesis
    using ne by (simp add: removeEventSegment_in_def Let_def e1(1) key len2 del)
qed

text \<open>The round trip of an event that has segments.\<close>

lemma add_remove_with_segments:
  assumes segs: "segments e = Some segs"
    and ne: "segs \<noteq> []"
    and last: "\<forall>p. map_of segs (formatDateLite_in z (endDate e)) = Some p
                 \<longrightarrow> isLastDay p \<and> seg_endTimeMinutes p = endTimeMinutes e"
    and fresh: "formatDateLite_in z (addDays_in z (endDate e) 1) \<notin> fst ` set segs"
    and cnt: "daysCount e = int (length segs)"
    and endstr: "end_str e = formatDateLite_in z (endDate e) @ '' '' @ formatTime (endTimeMinutes e)"
    and len: "length (formatDateLite_in z (addDays_in z (endDate e) 1)) = 10"
    and restore: "subtractDays_in z (addDays_in z (endDate e) 1) 1 = endDate e"
  shows "removeEventSegment_in z (fst (addEventSegment_in z e))
         = Inr (e, formatDateLite_in z (endDate e))"
proof -
  let ?pk = "formatDateLite_in z (endDate e)"
  let ?nk = "formatDateLite_in z (addDays_in z (endDate e) 1)"
  let ?new = "\<lparr>seg_startDate = setHours4_in z (addDays_in z (endDate e) 1) 0 0 0 0, seg_start = ?nk,
                seg_startTimeMinutes = 0, seg_endTimeMinutes = endTimeMinutes e,
                isFirstDay = False, isLastDay = True, seg_height = 0, seg_top = 0\<rparr>"
  let ?segs1 = "case map_of segs ?pk of
                  Some previousSegment \<Rightarrow>
                    AList.update ?pk
                      (previousSegment\<lparr>isLastDay := False, seg_endTimeMinutes := minutesInADay\<rparr>) segs
                | None \<Rightarrow> segs"
  let ?e1 = "fst (addEventSegment_in z e)"
  have seg1: "segments ?e1 = Some (AList.update ?nk ?new ?segs1)"
    and end1: "end_str ?e1 = ?nk @ '' '' @ formatTime (endTimeMinutes e)"
    and date1: "endDate ?e1 = addDays_in z (endDate e) 1"
    and time1: "endTimeMinutes ?e1 = endTimeMinutes e"
    by (simp_all add: addEventSegment_in_def segs Let_def)
  have keys1: "fst ` set ?segs1 = fst ` set segs"
  proof (cases "map_of segs ?pk")
    case None
    then show ?thesis by simp
  next
    case (Some p)
    then have "?pk \<in> fst ` set segs"
      by (metis domI dom_map_of_conv_image_fst)
    with Some show ?thesis by (auto simp: dom_update)
  qed
  have ne1: "?segs1 \<noteq> []"
  proof
    assume "?segs1 = []"
    then have "fst ` set ?segs1 = {}" by simp
    with keys1 have "set segs = {}" by simp
    with ne show False by simp
  qed
  have fresh1: "?nk \<notin> fst ` set ?segs1"
    using fresh keys1 by simp
  have restored:
    "(case map_of ?segs1 ?pk of
        Some previousSegment \<Rightarrow>
          Some (AList.update ?pk
                 (previousSegment\<lparr>isLastDay := True, seg_endTimeMinutes := endTimeMinutes e\<rparr>)
                 ?segs1)
      | None \<Rightarrow> Some ?segs1) = Some segs"
  proof (cases "map_of segs ?pk")
    case None
    then show ?thesis by simp
  next
    case (Some p)
    let ?p1 = "p\<lparr>isLastDay := False, seg_endTimeMinutes := minutesInADay\<rparr>"
    from last Some have p: "isLastDay p" "seg_endTimeMinutes p = endTimeMinutes e"
      by blast+
    have p_id: "?p1\<lparr>isLastDay := True, seg_endTimeMinutes := endTimeMinutes e\<rparr> = p"
      using p by simp
    have s1: "?segs1 = AList.update ?pk ?p1 segs"
      using Some by simp
    have look: "map_of (AList.update ?pk ?p1 segs) ?pk = Some ?p1"
      by (simp add: update_conv')
    have "AList.update ?pk p (AList.update ?pk ?p1 segs) = AList.update ?pk p segs"
      by (rule update_last)
    also have "\<dots> = segs"
      using Some by (rule update_triv)
    finally have "AList.update ?pk p (AList.update ?pk ?p1 segs) = segs" .
    then show ?thesis
      unfolding s1 look option.case p_id by simp
  qed
  have len1: "length ?segs1 = length segs"
  proof (cases "map_of segs ?pk")
    case None
    then show ?thesis by simp
  next
    case (Some p)
    then have "?pk \<in> fst ` set segs"
      by (metis domI dom_map_of_conv_image_fst)
    with Some show ?thesis by (simp add: length_update_present)
  qed
  have all: "?e1\<lparr>segments := Some segs, daysCount := int (length segs), endDate := endDate e,
                 end_str := ?pk @ '' '' @ formatTime (endTimeMinutes e)\<rparr> = e"
    using segs cnt endstr by (simp add: addEventSegment_in_def Let_def)
  show ?thesis
    using removeEventSegment_in_after_add [OF ne1 fresh1 len seg1 end1, of z]
    by (simp only: date1 time1 restore restored len1 all)
qed

text \<open>
  The round trip of an event whose \<^verbatim>\<open>segments\<close> are \<^verbatim>\<open>null\<close>: \<^verbatim>\<open>addEventSegment\<close> makes the
  segment of the first day, and \<^verbatim>\<open>removeEventSegment\<close> leaves it in the object.
\<close>

lemma add_remove_without_segments:
  assumes segs: "segments e = None"
    and cnt: "daysCount e = 1"
    and fresh: "formatDateLite_in z (addDays_in z (endDate e) 1) \<noteq> substr0 (start e) 10"
    and endstr: "end_str e = formatDateLite_in z (endDate e) @ '' '' @ formatTime (endTimeMinutes e)"
    and len: "length (formatDateLite_in z (addDays_in z (endDate e) 1)) = 10"
    and restore: "subtractDays_in z (addDays_in z (endDate e) 1) 1 = endDate e"
  shows "removeEventSegment_in z (fst (addEventSegment_in z e))
         = Inr (e\<lparr>segments :=
                    Some [(substr0 (start e) 10,
                           \<lparr>seg_startDate = startDate e, seg_start = substr0 (start e) 10,
                            seg_startTimeMinutes = startTimeMinutes e,
                            seg_endTimeMinutes =
                              (if formatDateLite_in z (endDate e) = substr0 (start e) 10
                               then endTimeMinutes e else minutesInADay),
                            isFirstDay = True,
                            isLastDay = (formatDateLite_in z (endDate e) = substr0 (start e) 10),
                            seg_height = 0, seg_top = 0\<rparr>)]\<rparr>,
                formatDateLite_in z (endDate e))"
proof -
  let ?pk = "formatDateLite_in z (endDate e)"
  let ?nk = "formatDateLite_in z (addDays_in z (endDate e) 1)"
  let ?k0 = "substr0 (start e) 10"
  let ?first = "\<lparr>seg_startDate = startDate e, seg_start = ?k0,
                  seg_startTimeMinutes = startTimeMinutes e, seg_endTimeMinutes = minutesInADay,
                  isFirstDay = True, isLastDay = False, seg_height = 0, seg_top = 0\<rparr>"
  let ?new = "\<lparr>seg_startDate = setHours4_in z (addDays_in z (endDate e) 1) 0 0 0 0, seg_start = ?nk,
                seg_startTimeMinutes = 0, seg_endTimeMinutes = endTimeMinutes e,
                isFirstDay = False, isLastDay = True, seg_height = 0, seg_top = 0\<rparr>"
  let ?segs1 = "[(?k0, ?first)]"
  let ?e1 = "fst (addEventSegment_in z e)"
  have seg1: "segments ?e1 = Some (AList.update ?nk ?new ?segs1)"
    and end1: "end_str ?e1 = ?nk @ '' '' @ formatTime (endTimeMinutes e)"
    and date1: "endDate ?e1 = addDays_in z (endDate e) 1"
    and time1: "endTimeMinutes ?e1 = endTimeMinutes e"
    by (simp_all add: addEventSegment_in_def segs Let_def)
  have ne1: "?segs1 \<noteq> []" by simp
  have fresh1: "?nk \<notin> fst ` set ?segs1"
    using fresh by simp
  have all: "?e1\<lparr>segments := Some s, daysCount := 1, endDate := endDate e,
                 end_str := ?pk @ '' '' @ formatTime (endTimeMinutes e)\<rparr> = e\<lparr>segments := Some s\<rparr>" for s
    using cnt endstr by (simp add: addEventSegment_in_def Let_def)
  have res: "removeEventSegment_in z ?e1 =
    Inr (?e1\<lparr>segments :=
               (case map_of ?segs1 ?pk of
                  Some previousSegment \<Rightarrow>
                    Some (AList.update ?pk
                           (previousSegment\<lparr>isLastDay := True,
                              seg_endTimeMinutes := endTimeMinutes e\<rparr>) ?segs1)
                | None \<Rightarrow> Some ?segs1),
             daysCount := int (length ?segs1),
             endDate := endDate e,
             end_str := ?pk @ '' '' @ formatTime (endTimeMinutes e)\<rparr>, ?pk)"
    using removeEventSegment_in_after_add [OF ne1 fresh1 len seg1 end1, of z]
    by (simp only: date1 time1 restore)
  show ?thesis
  proof (cases "?pk = ?k0")
    case True
    show ?thesis
      unfolding res using True all by simp
  next
    case False
    show ?thesis
      unfolding res using False all by simp
  qed
qed

text \<open>
  Claim C1, as amended. In any time zone, take an event for which a day back from the day
  after \<^verbatim>\<open>endDate\<close> is \<^verbatim>\<open>endDate\<close> again (so no hour that the clock skips or repeats comes in
  between), whose \<^verbatim>\<open>end\<close> string is the day key of \<^verbatim>\<open>endDate\<close>, a space and the formatted end
  time, and whose next day has a key of 10 characters (a year of four digits, since
  \<^verbatim>\<open>removeEventSegment\<close> finds the key as \<^verbatim>\<open>e.end.substr(0, 10)\<close>).

  \<^item> If the event has at least one segment, its \<^verbatim>\<open>daysCount\<close> is the number of its segments,
    there is no segment for the next day, and the segment under the day key of \<^verbatim>\<open>endDate\<close>, if
    there is one, is the last (\<^verbatim>\<open>isLastDay\<close>, ending at the event's \<^verbatim>\<open>endTimeMinutes\<close>), then
    \<^verbatim>\<open>addEventSegment\<close> followed by \<^verbatim>\<open>removeEventSegment\<close> gives the event back unchanged, so
    with its \<^verbatim>\<open>end\<close>, \<^verbatim>\<open>endDate\<close>, \<^verbatim>\<open>daysCount\<close> and \<^verbatim>\<open>segments\<close>, and returns the day key of
    \<^verbatim>\<open>endDate\<close>.

  \<^item> If its \<^verbatim>\<open>segments\<close> are \<^verbatim>\<open>null\<close>, its \<^verbatim>\<open>daysCount\<close> is 1 and the next day is not the day
    of \<^verbatim>\<open>start\<close>, then the two calls give the event back with all its fields but \<^verbatim>\<open>segments\<close>,
    which is an object that holds the segment of the first day; this segment is the last,
    ending at the event's \<^verbatim>\<open>endTimeMinutes\<close>, if \<^verbatim>\<open>endDate\<close> is on the day of \<^verbatim>\<open>start\<close>, and else
    not the last and ending at the end of the day.
\<close>

theorem addEventSegment_removeEventSegment_restores:
  assumes restore: "subtractDays_in z (addDays_in z (endDate e) 1) 1 = endDate e"
    and endstr: "end_str e = formatDateLite_in z (endDate e) @ '' '' @ formatTime (endTimeMinutes e)"
    and len: "length (formatDateLite_in z (addDays_in z (endDate e) 1)) = 10"
  shows "(\<forall>segs. segments e = Some segs \<and> segs \<noteq> [] \<and> daysCount e = int (length segs)
             \<and> formatDateLite_in z (addDays_in z (endDate e) 1) \<notin> fst ` set segs
             \<and> (\<forall>p. map_of segs (formatDateLite_in z (endDate e)) = Some p
                      \<longrightarrow> isLastDay p \<and> seg_endTimeMinutes p = endTimeMinutes e)
           \<longrightarrow> removeEventSegment_in z (fst (addEventSegment_in z e))
                 = Inr (e, formatDateLite_in z (endDate e)))
       \<and> (segments e = None \<and> daysCount e = 1
            \<and> formatDateLite_in z (addDays_in z (endDate e) 1) \<noteq> substr0 (start e) 10
           \<longrightarrow> removeEventSegment_in z (fst (addEventSegment_in z e))
                 = Inr (e\<lparr>segments :=
                            Some [(substr0 (start e) 10,
                                   \<lparr>seg_startDate = startDate e, seg_start = substr0 (start e) 10,
                                    seg_startTimeMinutes = startTimeMinutes e,
                                    seg_endTimeMinutes =
                                      (if formatDateLite_in z (endDate e) = substr0 (start e) 10
                                       then endTimeMinutes e else minutesInADay),
                                    isFirstDay = True,
                                    isLastDay = (formatDateLite_in z (endDate e) = substr0 (start e) 10),
                                    seg_height = 0, seg_top = 0\<rparr>)]\<rparr>,
                        formatDateLite_in z (endDate e)))"
proof (intro conjI allI impI)
  fix segs
  assume h: "segments e = Some segs \<and> segs \<noteq> [] \<and> daysCount e = int (length segs)
             \<and> formatDateLite_in z (addDays_in z (endDate e) 1) \<notin> fst ` set segs
             \<and> (\<forall>p. map_of segs (formatDateLite_in z (endDate e)) = Some p
                      \<longrightarrow> isLastDay p \<and> seg_endTimeMinutes p = endTimeMinutes e)"
  from h have h1: "segments e = Some segs" and h2: "segs \<noteq> []"
    and h3: "daysCount e = int (length segs)"
    and h4: "formatDateLite_in z (addDays_in z (endDate e) 1) \<notin> fst ` set segs"
    and h5: "\<forall>p. map_of segs (formatDateLite_in z (endDate e)) = Some p
                      \<longrightarrow> isLastDay p \<and> seg_endTimeMinutes p = endTimeMinutes e"
    by blast+
  show "removeEventSegment_in z (fst (addEventSegment_in z e))
        = Inr (e, formatDateLite_in z (endDate e))"
    by (rule add_remove_with_segments [OF h1 h2 h5 h4 h3 endstr len restore])
next
  assume h: "segments e = None \<and> daysCount e = 1
            \<and> formatDateLite_in z (addDays_in z (endDate e) 1) \<noteq> substr0 (start e) 10"
  from h have h1: "segments e = None" and h2: "daysCount e = 1"
    and h3: "formatDateLite_in z (addDays_in z (endDate e) 1) \<noteq> substr0 (start e) 10"
    by blast+
  show "removeEventSegment_in z (fst (addEventSegment_in z e))
         = Inr (e\<lparr>segments :=
                    Some [(substr0 (start e) 10,
                           \<lparr>seg_startDate = startDate e, seg_start = substr0 (start e) 10,
                            seg_startTimeMinutes = startTimeMinutes e,
                            seg_endTimeMinutes =
                              (if formatDateLite_in z (endDate e) = substr0 (start e) 10
                               then endTimeMinutes e else minutesInADay),
                            isFirstDay = True,
                            isLastDay = (formatDateLite_in z (endDate e) = substr0 (start e) 10),
                            seg_height = 0, seg_top = 0\<rparr>)]\<rparr>,
                formatDateLite_in z (endDate e))"
    by (rule add_remove_without_segments [OF h1 h2 h3 endstr len restore])
qed

text \<open>
  The two cases in the zone without offset changes: the event of two days comes back as it
  was, and the event without segments comes back with the segment of its day.
\<close>

theorem addEventSegment_removeEventSegment_restores_witness:
  "removeEventSegment_in (fixed_zone 0) (fst (addEventSegment_in (fixed_zone 0) example_two_days))
     = Inr (example_two_days, ''2019-11-03'')
   \<and> removeEventSegment_in (fixed_zone 0) (fst (addEventSegment_in (fixed_zone 0) example_event))
     = Inr (example_event\<lparr>segments := Some [(''2019-11-02'', example_first_segment)]\<rparr>,
            ''2019-11-02'')"
proof -
  let ?z = "fixed_zone 0"
  let ?segs = "[(''2019-11-02'',
                 example_first_segment\<lparr>seg_endTimeMinutes := 1440, isLastDay := False\<rparr>),
                (''2019-11-03'', example_last_segment)]"
  have f: "formatDateLite_in ?z t = formatDateLite t" for t
    by (simp add: fixed_zone_formatDateLite)
  have end2: "endDate example_two_days = mkDate 2019 10 3 20 0"
    and end1: "endDate example_event = mkDate 2019 10 2 20 0"
    by (simp_all add: example_two_days_def example_event_def)
  have restore2: "subtractDays_in ?z (addDays_in ?z (endDate example_two_days) 1) 1
                  = endDate example_two_days"
    and restore1: "subtractDays_in ?z (addDays_in ?z (endDate example_event) 1) 1
                  = endDate example_event"
    by (simp_all add: fixed_zone_addDays fixed_zone_subtractDays subtractDays_addDays)
  have endstr2: "end_str example_two_days
          = formatDateLite_in ?z (endDate example_two_days) @ '' ''
            @ formatTime (endTimeMinutes example_two_days)"
    by (simp add: f end2 formatDateLite_nov3)
       (simp add: example_two_days_def example_event_def formatTime_1200)
  have endstr1: "end_str example_event
          = formatDateLite_in ?z (endDate example_event) @ '' ''
            @ formatTime (endTimeMinutes example_event)"
    by (simp add: f end1 formatDateLite_nov2)
       (simp add: example_event_def formatTime_1200)
  have len2: "length (formatDateLite_in ?z (addDays_in ?z (endDate example_two_days) 1)) = 10"
    by (simp add: f fixed_zone_addDays end2 formatDateLite_nov3_next)
  have len1: "length (formatDateLite_in ?z (addDays_in ?z (endDate example_event) 1)) = 10"
    by (simp add: f fixed_zone_addDays end1 formatDateLite_nov2_next)
  have two: "segments example_two_days = Some ?segs \<and> ?segs \<noteq> []
             \<and> daysCount example_two_days = int (length ?segs)
             \<and> formatDateLite_in ?z (addDays_in ?z (endDate example_two_days) 1) \<notin> fst ` set ?segs
             \<and> (\<forall>p. map_of ?segs (formatDateLite_in ?z (endDate example_two_days)) = Some p
                      \<longrightarrow> isLastDay p \<and> seg_endTimeMinutes p = endTimeMinutes example_two_days)"
    by (simp add: f fixed_zone_addDays end2 formatDateLite_nov3 formatDateLite_nov3_next)
       (simp add: example_two_days_def example_last_segment_def example_event_def)
  have one: "segments example_event = None \<and> daysCount example_event = 1
             \<and> formatDateLite_in ?z (addDays_in ?z (endDate example_event) 1)
                 \<noteq> substr0 (start example_event) 10"
    by (simp add: f fixed_zone_addDays end1 formatDateLite_nov2_next)
       (simp add: example_event_def eventDefaults_def substr0_def)
  have first: "\<lparr>seg_startDate = startDate example_event,
                 seg_start = substr0 (start example_event) 10,
                 seg_startTimeMinutes = startTimeMinutes example_event,
                 seg_endTimeMinutes =
                   (if formatDateLite_in ?z (endDate example_event) = substr0 (start example_event) 10
                    then endTimeMinutes example_event else minutesInADay),
                 isFirstDay = True,
                 isLastDay = (formatDateLite_in ?z (endDate example_event)
                              = substr0 (start example_event) 10),
                 seg_height = 0, seg_top = 0\<rparr> = example_first_segment"
    by (simp add: f end1 formatDateLite_nov2)
       (simp add: example_event_def example_first_segment_def substr0_def)
  have key: "substr0 (start example_event) 10 = ''2019-11-02''"
    by (simp add: example_event_def substr0_def)
  from addEventSegment_removeEventSegment_restores [OF restore2 endstr2 len2] two
  have r2: "removeEventSegment_in ?z (fst (addEventSegment_in ?z example_two_days))
            = Inr (example_two_days, formatDateLite_in ?z (endDate example_two_days))"
    by blast
  from addEventSegment_removeEventSegment_restores [OF restore1 endstr1 len1] one
  have "removeEventSegment_in ?z (fst (addEventSegment_in ?z example_event))
         = Inr (example_event\<lparr>segments :=
                    Some [(substr0 (start example_event) 10,
                           \<lparr>seg_startDate = startDate example_event,
                            seg_start = substr0 (start example_event) 10,
                            seg_startTimeMinutes = startTimeMinutes example_event,
                            seg_endTimeMinutes =
                              (if formatDateLite_in ?z (endDate example_event)
                                  = substr0 (start example_event) 10
                               then endTimeMinutes example_event else minutesInADay),
                            isFirstDay = True,
                            isLastDay = (formatDateLite_in ?z (endDate example_event)
                                         = substr0 (start example_event) 10),
                            seg_height = 0, seg_top = 0\<rparr>)]\<rparr>,
                formatDateLite_in ?z (endDate example_event))"
    by blast
  then have r1: "removeEventSegment_in ?z (fst (addEventSegment_in ?z example_event))
            = Inr (example_event\<lparr>segments := Some [(''2019-11-02'', example_first_segment)]\<rparr>,
                   formatDateLite_in ?z (endDate example_event))"
    by (simp only: first) (simp only: key)
  show ?thesis
    using r1 r2 by (simp add: f end1 end2 formatDateLite_nov2 formatDateLite_nov3)
qed

text \<open>
  Claim C1 as stated fails for an event without segments: after the two calls the event
  of 2019-11-02 has its \<^verbatim>\<open>end\<close>, \<^verbatim>\<open>endDate\<close> and \<^verbatim>\<open>daysCount\<close> back, but its \<^verbatim>\<open>segments\<close>
  are an object with the segment of the first day, where they were \<^verbatim>\<open>null\<close>.
\<close>

theorem addEventSegment_removeEventSegment_null_counterexample:
  "segments example_event = None \<and>
   removeEventSegment (fst (addEventSegment example_event))
     = Inr (example_event\<lparr>segments := Some [(''2019-11-02'', example_first_segment)]\<rparr>,
            ''2019-11-02'') \<and>
   removeEventSegment_in (fixed_zone 0) (fst (addEventSegment_in (fixed_zone 0) example_event))
     = Inr (example_event\<lparr>segments := Some [(''2019-11-02'', example_first_segment)]\<rparr>,
            ''2019-11-02'')"
  unfolding fixed_zone_addEventSegment fixed_zone_removeEventSegment
  by (simp add: example_event_def eventDefaults_def addEventSegment_def removeEventSegment_def
      example_first_segment_def formatDateLite_nov2 formatDateLite_nov2_next formatTime_1200
      Let_def substr0_def minutesInADay_def subtractDays_addDays)

text \<open>
  The condition on the day step is needed. In the zone whose clock skips the first hour of
  2018-11-04, the day after 00:30 of 2018-11-03 is 01:30 of 2018-11-04 (03:30 UTC), and a
  day back from there is 01:30 of 2018-11-03 (04:30 UTC), an hour late: \<^verbatim>\<open>endDate\<close> is not
  restored.
\<close>

lemma skipped_hour_day_step:
  "addDays_in example_dst_zone example_dst_instant 1 = mkDate 2018 10 4 3 30
   \<and> subtractDays_in example_dst_zone (addDays_in example_dst_zone example_dst_instant 1) 1
       = mkDate 2018 10 3 4 30
   \<and> subtractDays_in example_dst_zone (addDays_in example_dst_zone example_dst_instant 1) 1
       \<noteq> example_dst_instant"
  by code_simp

section \<open>The streak of an overlap record\<close>

lemma streak_inner_ok:
  "set ids \<subseteq> fst ` set t \<Longrightarrow>
   \<exists>r. streak_inner t i ids acc = Inr r \<and> set r \<subseteq> set acc \<union> set ids"
proof (induction ids arbitrary: acc)
  case Nil
  then show ?case by simp
next
  case (Cons id3 rest)
  from Cons.prems obtain r3 where r3: "map_of t id3 = Some r3"
    by (metis domD dom_map_of_conv_image_fst list.set_intros(1) subsetD)
  from Cons.prems have rest: "set rest \<subseteq> fst ` set t" by simp
  let ?acc = "if i \<in> set (overlaps r3) then acc else acc @ [id3]"
  from Cons.IH [OF rest, of ?acc] obtain r where
    r: "streak_inner t i rest ?acc = Inr r" "set r \<subseteq> set ?acc \<union> set rest" by blast
  have "set r \<subseteq> set acc \<union> set (id3 # rest)"
    using r(2) by (auto split: if_splits)
  with r(1) r3 show ?case by simp
qed

lemma streak_outer_ok:
  "set ovs \<subseteq> fst ` set t \<Longrightarrow> set ids \<subseteq> set ovs \<Longrightarrow>
   \<exists>r. streak_outer t ovs ids acc = Inr r \<and> set r \<subseteq> set acc \<union> set ovs"
proof (induction ids arbitrary: acc)
  case Nil
  then show ?case by simp
next
  case (Cons i rest)
  have rest: "set rest \<subseteq> set ovs" using Cons.prems(2) by simp
  show ?case
  proof (cases "i \<in> set acc")
    case True
    with Cons.IH [OF Cons.prems(1) rest, of acc] show ?thesis by simp
  next
    case False
    have "set (filter (\<lambda>id2. id2 \<noteq> i) ovs) \<subseteq> fst ` set t"
      using Cons.prems(1) by auto
    from streak_inner_ok [OF this, of i acc] obtain r1 where
      r1: "streak_inner t i (filter (\<lambda>id2. id2 \<noteq> i) ovs) acc = Inr r1"
          "set r1 \<subseteq> set acc \<union> set (filter (\<lambda>id2. id2 \<noteq> i) ovs)" by blast
    from Cons.IH [OF Cons.prems(1) rest, of r1] obtain r where
      r: "streak_outer t ovs rest r1 = Inr r" "set r \<subseteq> set r1 \<union> set ovs" by blast
    have "set r \<subseteq> set acc \<union> set ovs" using r(2) r1(2) by auto
    with r(1) r1(1) False show ?thesis by simp
  qed
qed

lemma length_dedupe: "length (dedupe xs) = card (set xs)"
  by (simp add: dedupe_def length_remdups_card_conv)

lemma getOverlapsStreak_returns:
  assumes "set (overlaps ev) \<subseteq> fst ` set t"
  shows "\<exists>s. getOverlapsStreak ev t = Inr s \<and> 1 \<le> s \<and> s \<le> int (length (overlaps ev)) + 1"
proof -
  from streak_outer_ok [OF assms subset_refl, of "[]"] obtain r where
    r: "streak_outer t (overlaps ev) (overlaps ev) [] = Inr r" "set r \<subseteq> set (overlaps ev)"
    by auto
  have "card (set r) \<le> card (set (overlaps ev))"
    using r(2) by (simp add: card_mono)
  also have "\<dots> \<le> length (overlaps ev)"
    by (rule card_length)
  finally have "length (dedupe r) \<le> length (overlaps ev)"
    by (simp add: length_dedupe)
  then show ?thesis
    using r(1) by (simp add: getOverlapsStreak_def)
qed

text \<open>
  Claim C5. For an overlap record whose \<^verbatim>\<open>overlaps\<close> are all ids of the table,
  \<^verbatim>\<open>getOverlapsStreak\<close> returns (no TypeError) a streak \<open>s\<close> with \<open>1 \<le> s \<le> |overlaps| + 1\<close>.
\<close>

theorem getOverlapsStreak_bounds:
  assumes "set (overlaps ev) \<subseteq> fst ` set t"
  shows "\<exists>s. getOverlapsStreak ev t = Inr s \<and> 1 \<le> s \<and> s \<le> int (length (overlaps ev)) + 1"
  using assms by (rule getOverlapsStreak_returns)

theorem getOverlapsStreak_bounds_witness:
  "set (overlaps \<lparr>overlaps = [''2'', ''3''], ov_start = ''2019-11-02 09:00'', position = 0\<rparr>)
     \<subseteq> fst ` set example_table
   \<and> (\<exists>s. getOverlapsStreak
              \<lparr>overlaps = [''2'', ''3''], ov_start = ''2019-11-02 09:00'', position = 0\<rparr>
              example_table = Inr s
          \<and> 1 \<le> s \<and> s \<le> 3)"
  using getOverlapsStreak_bounds
    [of "\<lparr>overlaps = [''2'', ''3''], ov_start = ''2019-11-02 09:00'', position = 0\<rparr>" example_table]
  by (simp add: example_table_def)

section \<open>A creation that the hook refuses\<close>

text \<open>
  Claim C9. When \<^verbatim>\<open>dateTime\<close> is a Date, or a string (parsed to one), and the creation
  hook is a function whose result for the new event is falsy, \<^verbatim>\<open>createAnEvent\<close> returns
  \<^verbatim>\<open>undefined\<close>; \<^verbatim>\<open>mutableEvents\<close>, the view's events and the log of emitted signals are as
  before the call (no \<^verbatim>\<open>event-create\<close>, no \<^verbatim>\<open>event-change\<close>): the component differs in
  \<^verbatim>\<open>eventIdIncrement\<close> only, which the new event's id has used.
\<close>

theorem createAnEvent_vetoed:
  assumes hook: "onEventCreate vc = Some hook"
    and dt: "dateTime_of parseDate dateTime0 = Some dateTime"
    and veto: "\<not> snd (hook (newEvent parseDate dateTime eventOptions vc))"
  shows "createAnEvent parseDate addEventsToView dateTime0 eventOptions vc
           = (ReturnedUndefined, vc\<lparr>eventIdIncrement := eventIdIncrement vc + 1\<rparr>)
         \<and> mutableEvents (snd (createAnEvent parseDate addEventsToView dateTime0 eventOptions vc))
             = mutableEvents vc
         \<and> view_events (snd (createAnEvent parseDate addEventsToView dateTime0 eventOptions vc))
             = view_events vc
         \<and> emitted (snd (createAnEvent parseDate addEventsToView dateTime0 eventOptions vc))
             = emitted vc"
  using assms by (simp add: createAnEvent_def Let_def)

theorem createAnEvent_vetoed_witness:
  "createAnEvent (\<lambda>s. mkDate 2019 10 2 20 0) (\<lambda>ev evs. (ev, evs @ [ev]))
     (DateTimeDate (mkDate 2019 10 2 18 0)) (\<lambda>ev. ev) example_vuecal_veto
   = (ReturnedUndefined, example_vuecal_veto\<lparr>eventIdIncrement := 1\<rparr>)"
  using createAnEvent_vetoed
    [of example_vuecal_veto "\<lambda>ev. (ev, False)" "\<lambda>s. mkDate 2019 10 2 20 0"
        "DateTimeDate (mkDate 2019 10 2 18 0)" "mkDate 2019 10 2 18 0" "\<lambda>ev. ev"
        "\<lambda>ev evs. (ev, evs @ [ev])"]
  by (simp add: example_vuecal_veto_def example_vuecal_def dateTime_of_def)

section \<open>The geometry of an event: top and height\<close>

lemma Math_round_near: "\<bar>of_int (Math_round x) - x\<bar> \<le> 1 / 2"
  unfolding Math_round_def by linarith

lemma max0_lipschitz:
  fixes a x :: rat
  shows "\<bar>max a 0 - max x 0\<bar> \<le> \<bar>a - x\<bar>"
  by (simp add: max_def abs_if)

lemma max0_near:
  fixes x :: rat
  assumes "\<bar>of_int n - x\<bar> \<le> 1 / 2"
  shows "\<bar>of_int (max n 0) - max x 0\<bar> \<le> 1 / 2"
proof -
  have "of_int (max n 0) = max (of_int n) (0::rat)"
    by (simp add: max_def)
  then show ?thesis
    using max0_lipschitz [of "of_int n" x] assms by linarith
qed

text \<open>
  Claim C7, as amended. For a \<^verbatim>\<open>timeStep\<close> other than 0, both copies of
  \<^verbatim>\<open>updateEventPosition\<close> set the top to the specification's pixel of the start minutes
  \<^emph>\<open>rounded to the nearest integer\<close> and then clamped below at 0, so within half a pixel of the
  specification's top. The copy with the minimum height (the one of \<^verbatim>\<open>src/unnamed/part_000\<close>,
  \<^const>\<open>updateEventPosition\<close>) takes the bottom as the rounded pixel of
  \<open>min(endTimeMinutes, timeTo)\<close> and sets the height to bottom minus top, clamped below at 5:
  in this copy the height is at least 5 and never zero or negative. Of the height that the
  other copy sets, the statement says nothing.
\<close>

theorem updateEventPosition_geometry:
  assumes "timeStep vc \<noteq> 0"
  shows "top_px (updateEventPosition ev vc) = max (Math_round (spec_pixel (startTimeMinutes ev) vc)) 0
       \<and> height_px (updateEventPosition ev vc)
           = max (Math_round (spec_pixel (min (endTimeMinutes ev) (timeTo vc)) vc)
                  - top_px (updateEventPosition ev vc)) 5
       \<and> 0 \<le> top_px (updateEventPosition ev vc)
       \<and> 5 \<le> height_px (updateEventPosition ev vc)
       \<and> \<bar>of_int (top_px (updateEventPosition ev vc)) - spec_top ev vc\<bar> \<le> 1 / 2
       \<and> top_px (updateEventPosition_nomin ev vc) = top_px (updateEventPosition ev vc)"
proof -
  have near: "\<bar>of_int (max (Math_round (spec_pixel (startTimeMinutes ev) vc)) 0)
               - max (spec_pixel (startTimeMinutes ev) vc) 0\<bar> \<le> 1 / 2"
    by (rule max0_near) (rule Math_round_near)
  show ?thesis
    using near
    by (simp add: updateEventPosition_def updateEventPosition_nomin_def Let_def spec_pixel_def
        spec_top_def)
qed

theorem updateEventPosition_geometry_witness:
  "timeStep example_vuecal \<noteq> 0
   \<and> top_px (updateEventPosition example_event example_vuecal) = 1440
   \<and> height_px (updateEventPosition example_event example_vuecal) = 160
   \<and> 0 \<le> top_px (updateEventPosition example_instant example_vuecal)
   \<and> 5 \<le> height_px (updateEventPosition example_instant example_vuecal)
   \<and> \<bar>of_int (top_px (updateEventPosition example_instant example_vuecal))
        - spec_top example_instant example_vuecal\<bar> \<le> 1 / 2"
proof -
  have ts: "timeStep example_vuecal \<noteq> 0"
    by (simp add: example_vuecal_def)
  have vals: "top_px (updateEventPosition example_event example_vuecal) = 1440
              \<and> height_px (updateEventPosition example_event example_vuecal) = 160"
    by code_simp
  show ?thesis
    using ts vals updateEventPosition_geometry [OF ts, of example_instant] by blast
qed

text \<open>
  Claim C7 as stated gives the top as the unrounded formula. An event that starts at
  00:10, with 40 pixels for 30 minutes, has the top 13, and the formula gives 40 / 3.
\<close>

theorem updateEventPosition_top_counterexample:
  "top_px (updateEventPosition example_early_event example_vuecal) = 13
   \<and> spec_top example_early_event example_vuecal = 40 / 3
   \<and> of_int (top_px (updateEventPosition example_early_event example_vuecal))
       \<noteq> spec_top example_early_event example_vuecal"
  by code_simp

text \<open>
  The copy in \<^verbatim>\<open>src/components/vue-cal/event-utils.js\<close> ends with
  \<^verbatim>\<open>event.height = bottom - event.top\<close>: it misses the minimum that the other copy has
  (\<^verbatim>\<open>Math.max(bottom - event.top, 5) // Min height is 5px.\<close>) and that the specification
  asks for (a height clamped to a minimum visible height; zero or negative height clamped,
  never raised). There an event with no duration gets the height 0, and an event that starts
  after the end of the view (18:00, the view ending at 17:00) gets a negative height, where
  the copy with the minimum gives 5.
\<close>

lemma updateEventPosition_nomin_zero_height:
  "height_px (updateEventPosition_nomin example_instant example_vuecal) = 0
   \<and> height_px (updateEventPosition_nomin example_event (example_vuecal\<lparr>timeTo := 1020\<rparr>)) = - 80
   \<and> height_px (updateEventPosition example_instant example_vuecal) = 5
   \<and> height_px (updateEventPosition example_event (example_vuecal\<lparr>timeTo := 1020\<rparr>)) = 5"
  by code_simp

section \<open>An event and its own range\<close>





section \<open>Counting the days of a range\<close>

lemma ceil_div_span:
  assumes "0 < r" "r \<le> 86400000"
  shows "ceil_div (n * 86400000 + r) 86400000 = n + 1"
proof -
  have "(- (n * 86400000 + r)) div 86400000 = (- r + (- n) * 86400000) div 86400000"
    by (simp add: algebra_simps)
  also have "\<dots> = (- n) + (- r) div 86400000"
    by (rule div_mult_self1) simp
  also have "(- r) div 86400000 = - 1"
    using assms by (simp add: div_eq_minus1 zdiv_eq_0_iff)
  finally show ?thesis by (simp add: ceil_div_def)
qed







subsection \<open>With changes of the offset\<close>

text \<open>
  In a zone that keeps one offset, the count is the one above of what the local clock shows
  (\<open>fixed_zone_countDays\<close>). In any zone, \<^verbatim>\<open>countDays\<close> subtracts the change of
  \<^verbatim>\<open>getTimezoneOffset()\<close> between the two normalised instants: the count is the span of the
  local days whenever the two local midnights are equally far from the clock, as they are
  when the clock shows both, and when it skips both.
\<close>

lemma countDays_in_span:
  assumes "offset_gap z ((localTime z end0 div msPerDay) * msPerDay + 1000 + localTime z end0 mod 1000)
         = offset_gap z ((localTime z start0 div msPerDay) * msPerDay + localTime z start0 mod 1000)"
  shows "countDays_in z start0 end0
         = localTime z end0 div msPerDay - localTime z start0 div msPerDay + 1"
proof -
  let ?ls = "(localTime z start0 div msPerDay) * msPerDay + localTime z start0 mod 1000"
  let ?le = "(localTime z end0 div msPerDay) * msPerDay + 1000 + localTime z end0 mod 1000"
  let ?r = "1000 + localTime z end0 mod 1000 - localTime z start0 mod 1000"
  have s: "0 \<le> localTime z start0 mod 1000" "localTime z start0 mod 1000 < 1000" by simp_all
  have e: "0 \<le> localTime z end0 mod 1000" "localTime z end0 mod 1000 < 1000" by simp_all
  have st: "setHours3_in z start0 0 0 0 = utcTime z ?ls"
    and en: "setHours3_in z end0 0 0 1 = utcTime z ?le"
    by (simp_all add: setHours3_in_def setHours4_in_def)
  have "utcTime z ?le - utcTime z ?ls
          - (getTimezoneOffset_in z (utcTime z ?le) - getTimezoneOffset_in z (utcTime z ?ls)) * 60 * 1000
        = ?le - ?ls + (offset_gap z ?le - offset_gap z ?ls) * 60000"
    by (simp add: offset_gap_def getTimezoneOffset_in_def utcTime_def algebra_simps)
  also have "\<dots> = ?le - ?ls"
    using assms by simp
  also have "\<dots> = (localTime z end0 div msPerDay - localTime z start0 div msPerDay) * 86400000 + ?r"
    by (simp add: msPerDay_def algebra_simps)
  finally have "countDays_in z start0 end0
        = ceil_div ((localTime z end0 div msPerDay - localTime z start0 div msPerDay) * 86400000 + ?r)
            86400000"
    by (simp add: countDays_in_def Let_def st en)
  also have "\<dots> = localTime z end0 div msPerDay - localTime z start0 div msPerDay + 1"
    using s e by (intro ceil_div_span) simp_all
  finally show ?thesis .
qed

text \<open>
  In the zone whose clock skips the first hour of 2018-11-04: from 18:00 of 2018-11-03
  (21:00 UTC) to 02:00 of 2018-11-04 (04:00 UTC) there are 2 days, and from there to 21:00
  of the same day (23:00 UTC) there is 1.
\<close>

lemma countDays_in_skipped_hour:
  "formatDateLite_in example_dst_zone (mkDate 2018 10 3 21 0) = ''2018-11-03''
   \<and> formatDateLite_in example_dst_zone (mkDate 2018 10 4 4 0) = ''2018-11-04''
   \<and> formatDateLite_in example_dst_zone (mkDate 2018 10 4 23 0) = ''2018-11-04''
   \<and> countDays_in example_dst_zone (mkDate 2018 10 3 21 0) (mkDate 2018 10 4 4 0) = 2
   \<and> countDays_in example_dst_zone (mkDate 2018 10 4 4 0) (mkDate 2018 10 4 23 0) = 1"
  by code_simp

section \<open>The day count after the core operations\<close>

lemma length_delete_present:
  "distinct (map fst al) \<Longrightarrow> k \<in> fst ` set al \<Longrightarrow> Suc (length (AList.delete k al)) = length al"
proof (induction al)
  case Nil
  then show ?case by simp
next
  case (Cons a al)
  show ?case
  proof (cases "fst a = k")
    case True
    with Cons.prems(1) have "k \<notin> fst ` set al" by auto
    then have "AList.delete k al = al" by (rule delete_id)
    with True show ?thesis by (cases a) simp
  next
    case False
    with Cons show ?thesis by (cases a) auto
  qed
qed

lemma addEventSegment_daysCount: "daysCount_matches (fst (addEventSegment e))"
  by (simp add: addEventSegment_def daysCount_matches_def Let_def)

lemma removeEventSegment_daysCount:
  assumes rem: "removeEventSegment e = Inr (e', k)"
    and inv: "daysCount_matches e"
    and dist: "segments_keys_distinct e"
    and key: "\<forall>segs. segments e = Some segs \<longrightarrow> 1 < length segs
                \<longrightarrow> substr0 (end_str e) 10 \<in> fst ` set segs"
  shows "daysCount_matches e'"
proof -
  from rem obtain segs where segs: "segments e = Some segs"
    by (cases "segments e") (auto simp: removeEventSegment_def)
  show ?thesis
  proof (cases "length segs \<le> 1")
    case True
    with rem segs have "e' = e"
      by (simp add: removeEventSegment_def Let_def)
    with inv show ?thesis by simp
  next
    case False
    let ?K = "substr0 (end_str e) 10"
    let ?segs1 = "AList.delete ?K segs"
    let ?fk = "formatDateLite (subtractDays (endDate e) 1)"
    from False key segs have "?K \<in> fst ` set segs" by simp
    moreover from dist segs have "distinct (map fst segs)"
      by (simp add: segments_keys_distinct_def)
    ultimately have len1: "Suc (length ?segs1) = length segs"
      by (simp add: length_delete_present)
    have upd: "map_of ?segs1 ?fk = Some p \<Longrightarrow> length (AList.update ?fk q ?segs1) = length ?segs1"
      for p q
      by (rule length_update_present) (metis domI dom_map_of_conv_image_fst)
    from False have cnt: "int (length segs) - 1 \<noteq> 0" by simp
    show ?thesis
      using rem segs False len1 cnt upd
      by (auto simp: removeEventSegment_def Let_def daysCount_matches_def split: option.splits)
  qed
qed

lemma createEventSegments_daysCount:
  "daysCount (createEventSegments e viewStartDate viewEndDate) = daysCount e"
  by (simp add: createEventSegments_def Let_def)

lemma newEvent_plain:
  "segments (newEvent parseDate dateTime (\<lambda>e. e) vc) = None"
  "daysCount (newEvent parseDate dateTime (\<lambda>e. e) vc) = 1"
  by (simp_all add: newEvent_def Let_def eventDefaults_def)

lemma newEvent_same_day:
  assumes "10 \<le> length (formatDateLite dateTime)"
  shows "updateDaysCount (newEvent parseDate dateTime (\<lambda>e. e) vc)
         = newEvent parseDate dateTime (\<lambda>e. e) vc"
  using assms by (simp add: updateDaysCount_def newEvent_def Let_def substr0_def)

lemma createAnEvent_daysCount:
  assumes "onEventCreate vc = None"
    and "dateTime_of parseDate dateTime0 = Some dateTime"
    and "10 \<le> length (formatDateLite dateTime)"
    and "fst (addEventsToView (newEvent parseDate dateTime (\<lambda>e. e) vc) (view_events vc))
         = newEvent parseDate dateTime (\<lambda>e. e) vc"
  shows "fst (createAnEvent parseDate addEventsToView dateTime0 (\<lambda>e. e) vc)
           = ReturnedEvent (newEvent parseDate dateTime (\<lambda>e. e) vc)
         \<and> daysCount_matches (newEvent parseDate dateTime (\<lambda>e. e) vc)"
  using assms newEvent_same_day [OF assms(3), of parseDate vc]
  by (simp add: createAnEvent_def Let_def daysCount_matches_def newEvent_plain)

text \<open>
  Claim C2, as amended. \<^verbatim>\<open>daysCount\<close> equals the number of keys of \<^verbatim>\<open>segments\<close>, or 1 when
  \<^verbatim>\<open>segments\<close> is \<^verbatim>\<open>null\<close>,
  \<^item> after \<^verbatim>\<open>addEventSegment\<close>, always;
  \<^item> after \<^verbatim>\<open>removeEventSegment\<close>, when it held before and, for an event of more than one
    segment, the key the function deletes (\<^verbatim>\<open>e.end.substr(0, 10)\<close>) is a key of the segments;
  \<^item> for the event \<^verbatim>\<open>createAnEvent\<close> returns when it is called without overrides and without
    a hook, for a date whose day key has 10 characters or more, and \<^verbatim>\<open>addEventsToView\<close>
    leaves the event as it is: its \<^verbatim>\<open>segments\<close> are \<^verbatim>\<open>null\<close> and its \<^verbatim>\<open>daysCount\<close> is 1.

  \<^verbatim>\<open>createEventSegments\<close> rebuilds \<^verbatim>\<open>segments\<close> within the view and does not write
  \<^verbatim>\<open>daysCount\<close>: the count stays what it was.
\<close>

theorem daysCount_after_core_operations:
  "daysCount_matches (fst (addEventSegment e))
   \<and> (removeEventSegment e = Inr (e', k) \<and> daysCount_matches e \<and> segments_keys_distinct e
        \<and> (\<forall>segs. segments e = Some segs \<longrightarrow> 1 < length segs
                    \<longrightarrow> substr0 (end_str e) 10 \<in> fst ` set segs)
       \<longrightarrow> daysCount_matches e')
   \<and> daysCount (createEventSegments e viewStartDate viewEndDate) = daysCount e
   \<and> (onEventCreate vc = None \<and> dateTime_of parseDate dateTimeArg = Some dateTime
        \<and> 10 \<le> length (formatDateLite dateTime)
        \<and> fst (addEventsToView (newEvent parseDate dateTime (\<lambda>e. e) vc) (view_events vc))
            = newEvent parseDate dateTime (\<lambda>e. e) vc
       \<longrightarrow> fst (createAnEvent parseDate addEventsToView dateTimeArg (\<lambda>e. e) vc)
             = ReturnedEvent (newEvent parseDate dateTime (\<lambda>e. e) vc)
           \<and> daysCount_matches (newEvent parseDate dateTime (\<lambda>e. e) vc))"
  using addEventSegment_daysCount [of e] removeEventSegment_daysCount [of e e' k]
    createEventSegments_daysCount [of e viewStartDate viewEndDate]
    createAnEvent_daysCount [of vc parseDate dateTimeArg dateTime addEventsToView]
  by blast

lemma formatDateLite_nov2_18: "formatDateLite (mkDate 2019 10 2 18 0) = ''2019-11-02''"
  by code_simp

lemma formatDateLite_nov3_prev: "formatDateLite (subtractDays (mkDate 2019 10 3 20 0) 1) = ''2019-11-02''"
  by code_simp

theorem daysCount_after_core_operations_witness:
  "daysCount_matches (fst (addEventSegment example_event))
   \<and> daysCount_matches example_two_days
   \<and> (\<exists>e' k. removeEventSegment example_two_days = Inr (e', k) \<and> daysCount_matches e')
   \<and> (\<exists>ev. fst (createAnEvent (\<lambda>s. mkDate 2019 10 2 20 0) (\<lambda>ev evs. (ev, evs @ [ev]))
                  (DateTimeDate (mkDate 2019 10 2 18 0)) (\<lambda>e. e) example_vuecal)
              = ReturnedEvent ev
            \<and> daysCount_matches ev)"
proof -
  obtain e1 k1 where rem: "removeEventSegment example_two_days = Inr (e1, k1)"
    by (simp add: removeEventSegment_def example_two_days_def Let_def)
  have inv: "daysCount_matches example_two_days"
    by (simp add: daysCount_matches_def example_two_days_def)
  have dist: "segments_keys_distinct example_two_days"
    by (simp add: segments_keys_distinct_def example_two_days_def)
  have key: "\<forall>segs. segments example_two_days = Some segs \<longrightarrow> 1 < length segs
               \<longrightarrow> substr0 (end_str example_two_days) 10 \<in> fst ` set segs"
    by (simp add: example_two_days_def substr0_def)
  have hook: "onEventCreate example_vuecal = None"
    by (simp add: example_vuecal_def)
  have dt: "dateTime_of (\<lambda>s. mkDate 2019 10 2 20 0) (DateTimeDate (mkDate 2019 10 2 18 0))
            = Some (mkDate 2019 10 2 18 0)"
    by (simp add: dateTime_of_def)
  have len: "10 \<le> length (formatDateLite (mkDate 2019 10 2 18 0))"
    by (simp add: formatDateLite_nov2_18)
  have atv: "fst ((\<lambda>ev evs. (ev, evs @ [ev]))
                  (newEvent (\<lambda>s. mkDate 2019 10 2 20 0) (mkDate 2019 10 2 18 0) (\<lambda>e. e) example_vuecal)
                  (view_events example_vuecal))
             = newEvent (\<lambda>s. mkDate 2019 10 2 20 0) (mkDate 2019 10 2 18 0) (\<lambda>e. e) example_vuecal"
    by simp
  show ?thesis
    using daysCount_after_core_operations
      [where e = example_two_days and e' = e1 and k = k1 and vc = example_vuecal
         and parseDate = "\<lambda>s. mkDate 2019 10 2 20 0"
         and dateTimeArg = "DateTimeDate (mkDate 2019 10 2 18 0)"
         and dateTime = "mkDate 2019 10 2 18 0"
         and addEventsToView = "\<lambda>ev evs. (ev, evs @ [ev])"]
      daysCount_after_core_operations [where e = example_event]
      rem inv dist key hook dt len atv
    by blast
qed

text \<open>
  Claim C2 as stated fails after \<^verbatim>\<open>createEventSegments\<close>. The event of four days, in a view
  of 2019-11-03 and 2019-11-04, gets the two segments of these days, and its \<^verbatim>\<open>daysCount\<close>
  is still 4.
\<close>

theorem createEventSegments_daysCount_counterexample:
  "map fst (the (segments
       (createEventSegments example_four_days (mkDate 2019 10 3 0 0) (mkDate 2019 10 4 23 59))))
     = [''2019-11-03'', ''2019-11-04'']
   \<and> daysCount (createEventSegments example_four_days (mkDate 2019 10 3 0 0) (mkDate 2019 10 4 23 59))
       = 4
   \<and> \<not> daysCount_matches
         (createEventSegments example_four_days (mkDate 2019 10 3 0 0) (mkDate 2019 10 4 23 59))"
  by code_simp

section \<open>The invariant of the overlap pass\<close>

lemma map_of_ensure_entry:
  "map_of (ensure_entry e t) =
    (if eid e \<in> fst ` set t then map_of t
     else (map_of t)(eid e \<mapsto> \<lparr>overlaps = [], ov_start = start e, position = 0\<rparr>))"
  by (auto simp: ensure_entry_def update_conv' dom_map_of_conv_image_fst [symmetric]
      split: option.splits)

lemma keys_ensure_entry: "fst ` set (ensure_entry e t) = insert (eid e) (fst ` set t)"
  by (auto simp: ensure_entry_def dom_update split: option.splits
      dest: map_of_SomeD intro: rev_image_eqI)

lemma distinct_ensure_entry:
  "distinct (map fst t) \<Longrightarrow> distinct (map fst (ensure_entry e t))"
  by (simp add: ensure_entry_def distinct_update split: option.splits)

lemma rel_ensure_entry: "overlap_rel (ensure_entry e t) = overlap_rel t"
  by (auto simp: overlap_rel_def map_of_ensure_entry dom_map_of_conv_image_fst [symmetric]
      split: if_splits)

lemma lists_distinct_ensure_entry: "lists_distinct t \<Longrightarrow> lists_distinct (ensure_entry e t)"
  by (auto simp: lists_distinct_def map_of_ensure_entry split: if_splits)

lemma rel_map_entry:
  "overlap_rel (AList.map_entry k f t) =
    {(i, j). i \<noteq> k \<and> (i, j) \<in> overlap_rel t}
    \<union> {(i, j). i = k \<and> (\<exists>r. map_of t k = Some r \<and> j \<in> set (overlaps (f r)))}"
  by (auto simp: overlap_rel_def map_of_map_entry split: option.splits if_splits)

lemma set_dedupe [simp]: "set (dedupe xs) = set xs"
  by (simp add: dedupe_def)

lemma distinct_dedupe [simp]: "distinct (dedupe xs)"
  by (simp add: dedupe_def)

lemma rel_add:
  assumes "k \<in> fst ` set t" and "\<And>r. overlaps (f r) = dedupe (overlaps r @ [b])"
  shows "overlap_rel (AList.map_entry k f t) = insert (k, b) (overlap_rel t)"
proof -
  from assms(1) obtain r where "map_of t k = Some r"
    by (metis domD dom_map_of_conv_image_fst)
  then show ?thesis
    unfolding rel_map_entry by (auto simp: assms(2) overlap_rel_def)
qed

lemma rel_remove:
  assumes "lists_distinct t" and "\<And>r. overlaps (f r) = remove1 b (overlaps r)"
  shows "overlap_rel (AList.map_entry k f t) = overlap_rel t - {(k, b)}"
  using assms(1) unfolding rel_map_entry
  by (auto simp: assms(2) overlap_rel_def lists_distinct_def)

lemma lists_distinct_map_entry:
  assumes "lists_distinct t" and "\<And>r. distinct (overlaps r) \<Longrightarrow> distinct (overlaps (f r))"
  shows "lists_distinct (AList.map_entry k f t)"
  using assms
  by (auto simp: lists_distinct_def map_of_map_entry split: option.splits if_splits)


lemma keys_compare_pair:
  "fst ` set (compare_pair inRange options e e2 t0) = insert (eid e2) (fst ` set t0)"
  by (simp add: compare_pair_def Let_def dom_map_entry keys_ensure_entry)

lemma distinct_compare_pair:
  "distinct (map fst t0) \<Longrightarrow> distinct (map fst (compare_pair inRange options e e2 t0))"
  by (simp add: compare_pair_def Let_def distinct_map_entry distinct_ensure_entry)

lemma lists_distinct_compare_pair:
  "lists_distinct t0 \<Longrightarrow> lists_distinct (compare_pair inRange options e e2 t0)"
  by (simp add: compare_pair_def Let_def lists_distinct_map_entry lists_distinct_ensure_entry)

lemma rel_compare_pair:
  assumes a: "eid e \<in> fst ` set t0" and d: "lists_distinct t0"
  shows "overlap_rel (compare_pair inRange options e e2 t0) =
    (if pair_overlaps inRange options e e2
     then overlap_rel t0 \<union> {(eid e, eid e2), (eid e2, eid e)}
     else overlap_rel t0 - {(eid e, eid e2), (eid e2, eid e)})"
proof -
  let ?t = "ensure_entry e2 t0"
  have ka: "eid e \<in> fst ` set ?t" and kb: "eid e2 \<in> fst ` set ?t"
    using a by (simp_all add: keys_ensure_entry)
  have dt: "lists_distinct ?t"
    using d by (rule lists_distinct_ensure_entry)
  show ?thesis
  proof (cases "pair_overlaps inRange options e e2")
    case True
    let ?t1 = "AList.map_entry (eid e) (\<lambda>r. r\<lparr>overlaps := dedupe (overlaps r @ [eid e2])\<rparr>) ?t"
    have r1: "overlap_rel ?t1 = insert (eid e, eid e2) (overlap_rel ?t)"
      using ka by (rule rel_add) simp
    have kb1: "eid e2 \<in> fst ` set ?t1"
      using kb by (simp add: dom_map_entry)
    have "overlap_rel (AList.map_entry (eid e2)
            (\<lambda>r. r\<lparr>overlaps := dedupe (overlaps r @ [eid e]), position := position r + 1\<rparr>) ?t1)
          = insert (eid e2, eid e) (overlap_rel ?t1)"
      using kb1 by (rule rel_add) simp
    with r1 True show ?thesis
      by (auto simp: compare_pair_def Let_def rel_ensure_entry)
  next
    case False
    let ?t1 = "AList.map_entry (eid e) (\<lambda>r. r\<lparr>overlaps := remove1 (eid e2) (overlaps r)\<rparr>) ?t"
    have r1: "overlap_rel ?t1 = overlap_rel ?t - {(eid e, eid e2)}"
      using dt by (rule rel_remove) simp
    have d1: "lists_distinct ?t1"
      using dt by (rule lists_distinct_map_entry) simp
    have "overlap_rel (AList.map_entry (eid e2)
            (\<lambda>r. r\<lparr>overlaps := remove1 (eid e) (overlaps r), position := position r - 1\<rparr>) ?t1)
          = overlap_rel ?t1 - {(eid e2, eid e)}"
      using d1 by (rule rel_remove) simp
    with r1 False show ?thesis
      by (auto simp: compare_pair_def Let_def rel_ensure_entry)
  qed
qed

lemma pair_overlaps_participates:
  "pair_overlaps inRange options e e2 \<Longrightarrow> participates e \<and> participates e2"
  by (simp add: pair_overlaps_def participates_def Let_def)

lemma table_inv_compare_pair:
  assumes inv: "table_inv S t0" and a: "eid e \<in> fst ` set t0" and e: "e \<in> S" and e2: "e2 \<in> S"
  shows "table_inv S (compare_pair inRange options e e2 t0)"
proof -
  let ?t' = "compare_pair inRange options e e2 t0"
  from inv have d: "lists_distinct t0" and k: "distinct (map fst t0)" and s: "sym (overlap_rel t0)"
    and c: "Range (overlap_rel t0) \<subseteq> fst ` set t0"
    and g: "overlap_rel t0 \<subseteq> {(i, j). \<exists>x y. i = eid x \<and> j = eid y \<and> x \<in> S \<and> y \<in> S
                        \<and> participates x \<and> participates y}"
    by (simp_all add: table_inv_def)
  note rel = rel_compare_pair [OF a d, of inRange options e2]
  have s': "sym (overlap_rel ?t')"
    using s unfolding rel sym_def by auto
  have c': "Range (overlap_rel ?t') \<subseteq> fst ` set ?t'"
    using c a unfolding rel keys_compare_pair by (auto split: if_splits)
  have g': "overlap_rel ?t' \<subseteq> {(i, j). \<exists>x y. i = eid x \<and> j = eid y \<and> x \<in> S \<and> y \<in> S
                        \<and> participates x \<and> participates y}"
  proof (cases "pair_overlaps inRange options e e2")
    case True
    then have "participates e \<and> participates e2" by (rule pair_overlaps_participates)
    with g e e2 True show ?thesis unfolding rel by auto
  next
    case False
    with g show ?thesis unfolding rel by auto
  qed
  show ?thesis
    unfolding table_inv_def
    using distinct_compare_pair [OF k] lists_distinct_compare_pair [OF d] s' c' g' by blast
qed

lemma fold_compare_pair:
  assumes "table_inv S t" and "eid e \<in> fst ` set t" and "e \<in> S" and "set rest \<subseteq> S"
  shows "table_inv S (fold (compare_pair inRange options e) rest t)
         \<and> fst ` set (fold (compare_pair inRange options e) rest t) = fst ` set t \<union> eid ` set rest"
  using assms
proof (induction rest arbitrary: t)
  case Nil
  then show ?case by simp
next
  case (Cons e2 rest)
  let ?t1 = "compare_pair inRange options e e2 t"
  have inv1: "table_inv S ?t1"
    using Cons.prems by (intro table_inv_compare_pair) auto
  have k1: "eid e \<in> fst ` set ?t1"
    using Cons.prems(2) by (simp add: keys_compare_pair)
  from Cons.IH [OF inv1 k1 Cons.prems(3)] Cons.prems(4)
  show ?case by (auto simp: keys_compare_pair)
qed

lemma rel_same:
  assumes "\<And>r. overlaps (f r) = overlaps r"
  shows "overlap_rel (AList.map_entry k f t) = overlap_rel t"
  unfolding rel_map_entry by (auto simp: assms overlap_rel_def)

lemma table_inv_position0:
  assumes "table_inv S t"
  shows "table_inv S (AList.map_entry k (\<lambda>r. r\<lparr>position := 0\<rparr>) (ensure_entry e t))"
proof -
  let ?t1 = "ensure_entry e t"
  let ?t2 = "AList.map_entry k (\<lambda>r. r\<lparr>position := 0\<rparr>) ?t1"
  have rel: "overlap_rel ?t2 = overlap_rel t"
    by (simp add: rel_same rel_ensure_entry)
  have keys: "fst ` set ?t2 = insert (eid e) (fst ` set t)"
    by (simp add: dom_map_entry keys_ensure_entry)
  have d: "lists_distinct ?t2"
    using assms by (intro lists_distinct_map_entry lists_distinct_ensure_entry) (simp_all add: table_inv_def)
  have k: "distinct (map fst ?t2)"
    using assms by (simp add: distinct_map_entry distinct_ensure_entry table_inv_def)
  show ?thesis
    using assms d k unfolding table_inv_def rel keys by auto
qed

lemma compare_event_inv:
  assumes "table_inv S t" and "e \<in> S" and "set rest \<subseteq> S"
  shows "table_inv S (compare_event inRange options e rest t)
         \<and> fst ` set (compare_event inRange options e rest t)
             = fst ` set t \<union> eid ` set (e # rest)"
proof -
  let ?t2 = "AList.map_entry (eid e) (\<lambda>r. r\<lparr>position := 0\<rparr>) (ensure_entry e t)"
  have inv2: "table_inv S ?t2"
    using assms(1) by (rule table_inv_position0)
  have k2: "fst ` set ?t2 = insert (eid e) (fst ` set t)"
    by (simp add: dom_map_entry keys_ensure_entry)
  then have a: "eid e \<in> fst ` set ?t2" by simp
  from fold_compare_pair [OF inv2 a assms(2) assms(3), of inRange options]
  show ?thesis
    unfolding compare_event_def k2 by auto
qed

lemma compare_events_inv:
  assumes "table_inv S t" and "set es \<subseteq> S"
  shows "table_inv S (compare_events inRange options es t)
         \<and> fst ` set (compare_events inRange options es t) = fst ` set t \<union> eid ` set es"
  using assms
proof (induction es arbitrary: t)
  case Nil
  then show ?case by simp
next
  case (Cons e rest)
  from Cons.prems have e: "e \<in> S" and rest: "set rest \<subseteq> S" by auto
  note step = compare_event_inv [OF Cons.prems(1) e rest, of inRange options]
  from Cons.IH [OF conjunct1 [OF step] rest] step
  show ?case by auto
qed

lemma table_inv_empty: "table_inv S []"
  by (simp add: table_inv_def lists_distinct_def overlap_rel_def sym_def)

section \<open>The position loop\<close>

lemma map_of_table_shape:
  "map_of (table_shape t) i = map_option (\<lambda>r. (overlaps r, ov_start r)) (map_of t i)"
  by (induction t) (auto simp: table_shape_def)

lemma keys_table_shape: "fst ` set (table_shape t) = fst ` set t"
  by (force simp: table_shape_def)

lemma map_fst_table_shape: "map fst (table_shape t) = map fst t"
  by (induction t) (auto simp: table_shape_def)

lemma shape_lookup:
  assumes "table_shape t = table_shape t'" and "map_of t i = Some r"
  shows "\<exists>r'. map_of t' i = Some r' \<and> overlaps r' = overlaps r \<and> ov_start r' = ov_start r"
proof -
  have "map_of (table_shape t') i = map_of (table_shape t) i"
    using assms(1) by simp
  then have "map_option (\<lambda>r. (overlaps r, ov_start r)) (map_of t' i) = Some (overlaps r, ov_start r)"
    using assms(2) by (simp add: map_of_table_shape)
  then show ?thesis by auto
qed

lemma shape_keys:
  assumes "table_shape t = table_shape t'"
  shows "fst ` set t = fst ` set t'"
proof -
  have "fst ` set (table_shape t) = fst ` set (table_shape t')"
    using assms by simp
  then show ?thesis by (simp add: keys_table_shape)
qed

lemma shape_rel_sub:
  assumes "table_shape t = table_shape t'"
  shows "overlap_rel t \<subseteq> overlap_rel t'"
proof
  fix x assume "x \<in> overlap_rel t"
  then obtain i j r where x: "x = (i, j)" and r: "map_of t i = Some r" "j \<in> set (overlaps r)"
    by (auto simp: overlap_rel_def)
  from shape_lookup [OF assms r(1)] obtain r' where
    "map_of t' i = Some r'" "overlaps r' = overlaps r" by blast
  with r(2) x show "x \<in> overlap_rel t'"
    by (auto simp: overlap_rel_def)
qed

lemma shape_rel:
  assumes "table_shape t = table_shape t'"
  shows "overlap_rel t = overlap_rel t'"
  using shape_rel_sub [OF assms] shape_rel_sub [OF assms [symmetric]] by blast

lemma shape_overlapsRow:
  assumes "table_shape t = table_shape t'"
  shows "overlapsRow t ids = overlapsRow t' ids"
proof (induction ids)
  case Nil
  show ?case by simp
next
  case (Cons i ids)
  show ?case
  proof (cases "map_of t i")
    case None
    have "map_of (table_shape t') i = map_of (table_shape t) i"
      using assms by simp
    with None have "map_of t' i = None"
      by (simp add: map_of_table_shape)
    with None show ?thesis by simp
  next
    case (Some r)
    from shape_lookup [OF assms Some] obtain r' where
      "map_of t' i = Some r'" "ov_start r' = ov_start r" by blast
    with Some Cons show ?thesis by (auto split: sum.splits)
  qed
qed

lemma shape_update_position:
  assumes "map_of t k = Some item"
  shows "table_shape (AList.update k (item\<lparr>position := p\<rparr>) t) = table_shape t"
  using assms by (induction t) (auto simp: table_shape_def)

lemma overlapsRow_returns:
  "set ids \<subseteq> fst ` set t \<Longrightarrow> \<exists>row. overlapsRow t ids = Inr row \<and> length row = length ids"
proof (induction ids)
  case Nil
  then show ?case by simp
next
  case (Cons i ids)
  from Cons.prems obtain r where "map_of t i = Some r"
    by (metis domD dom_map_of_conv_image_fst list.set_intros(1) subsetD)
  moreover from Cons obtain row where "overlapsRow t ids = Inr row" "length row = length ids"
    by auto
  ultimately show ?case by simp
qed

lemma length_row_insert [simp]: "length (row_insert a xs) = Suc (length xs)"
  by (induction xs) auto

lemma set_row_insert [simp]: "set (row_insert a xs) = insert a (set xs)"
  by (induction xs) auto

lemma length_row_sort [simp]: "length (row_sort xs) = length xs"
  by (induction xs) (auto simp: row_sort_def)

lemma set_row_sort [simp]: "set (row_sort xs) = set xs"
  by (induction xs) (auto simp: row_sort_def)

lemma findIndex_upper: "findIndex P xs < int (length xs)"
  by (induction xs) (auto simp: Let_def)

lemma findIndex_found: "\<exists>x \<in> set xs. P x \<Longrightarrow> 0 \<le> findIndex P xs"
proof (induction xs)
  case Nil
  then show ?case by simp
next
  case (Cons a xs)
  show ?case
  proof (cases "P a")
    case True
    then show ?thesis by simp
  next
    case False
    with Cons.prems have "\<exists>x \<in> set xs. P x" by auto
    from Cons.IH [OF this] False show ?thesis by (simp add: Let_def)
  qed
qed

lemma findIndex_bounds:
  "\<exists>x \<in> set xs. P x \<Longrightarrow> 0 \<le> findIndex P xs \<and> findIndex P xs < int (length xs)"
  by (simp add: findIndex_upper findIndex_found)

lemma shape_closed:
  assumes "table_shape t = table_shape t'" and "closed_table t"
  shows "closed_table t'"
  unfolding closed_table_def
proof (intro allI impI)
  fix i r' assume "map_of t' i = Some r'"
  from shape_lookup [OF assms(1) [symmetric] this] obtain r where
    r: "map_of t i = Some r" "overlaps r = overlaps r'" by blast
  from assms(2) r(1) have "set (overlaps r) \<subseteq> fst ` set t"
    unfolding closed_table_def by blast
  then show "set (overlaps r') \<subseteq> fst ` set t'"
    using shape_keys [OF assms(1)] r(2) by simp
qed

lemma shape_pos_ok:
  assumes "table_shape t = table_shape t'" and "pos_ok t i r"
  shows "pos_ok t' i r"
  using assms(2) unfolding pos_ok_def shape_overlapsRow [OF assms(1)] .

lemma position_step_ok:
  assumes item: "map_of t k = Some item" and closed: "closed_table t"
  shows "\<exists>p l'. position_step k (t, l) = Inr (AList.update k (item\<lparr>position := p\<rparr>) t, l')
           \<and> pos_ok t k (item\<lparr>position := p\<rparr>)"
proof -
  from closed item have sub: "set (overlaps item) \<subseteq> fst ` set t"
    by (auto simp: closed_table_def)
  from overlapsRow_returns [OF sub] obtain row0 where
    row0: "overlapsRow t (overlaps item) = Inr row0" "length row0 = length (overlaps item)"
    by blast
  let ?row = "row_sort (row0 @ [(k, ov_start item)])"
  let ?p = "findIndex (\<lambda>x. fst x = k) ?row"
  let ?item1 = "item\<lparr>position := ?p\<rparr>"
  let ?t1 = "AList.update k ?item1 t"
  have "\<exists>x \<in> set ?row. fst x = k" by simp
  from findIndex_bounds [of ?row "\<lambda>x. fst x = k", OF this]
  have bounds: "0 \<le> ?p" "?p \<le> int (length (overlaps item))"
    using row0(2) by simp_all
  have "set (overlaps ?item1) \<subseteq> fst ` set ?t1"
    using sub by (auto simp: dom_update)
  from getOverlapsStreak_returns [OF this] obtain s where
    s: "getOverlapsStreak ?item1 ?t1 = Inr s" by blast
  have "position_step k (t, l) = Inr (?t1, max s l)"
    using item row0(1) s by (simp add: position_step_def Let_def)
  moreover have "pos_ok t k ?item1"
    using row0(1) bounds by (simp add: pos_ok_def)
  ultimately show ?thesis by blast
qed

lemma position_loop_ok:
  assumes "closed_table t" and "distinct ks" and "set ks \<subseteq> fst ` set t"
  shows "\<exists>t' l'. position_loop ks (t, l) = Inr (t', l')
           \<and> table_shape t' = table_shape t
           \<and> (\<forall>i \<in> set ks. \<forall>r. map_of t' i = Some r \<longrightarrow> pos_ok t' i r)
           \<and> (\<forall>i. i \<notin> set ks \<longrightarrow> map_of t' i = map_of t i)"
  using assms
proof (induction ks arbitrary: t l)
  case Nil
  then show ?case by simp
next
  case (Cons k ks)
  from Cons.prems(3) obtain item where item: "map_of t k = Some item"
    by (metis domD dom_map_of_conv_image_fst list.set_intros(1) subsetD)
  from position_step_ok [OF item Cons.prems(1), of l] obtain p l1 where
    step: "position_step k (t, l) = Inr (AList.update k (item\<lparr>position := p\<rparr>) t, l1)"
    and ok: "pos_ok t k (item\<lparr>position := p\<rparr>)" by blast
  let ?t1 = "AList.update k (item\<lparr>position := p\<rparr>) t"
  have sh1: "table_shape ?t1 = table_shape t"
    using item by (rule shape_update_position)
  have c1: "closed_table ?t1"
    using sh1 [symmetric] Cons.prems(1) by (rule shape_closed)
  have d1: "distinct ks" and k_notin: "k \<notin> set ks"
    using Cons.prems(2) by simp_all
  have s1: "set ks \<subseteq> fst ` set ?t1"
    using Cons.prems(3) by (auto simp: dom_update)
  from Cons.IH [OF c1 d1 s1, of l1] obtain t' l' where
    loop: "position_loop ks (?t1, l1) = Inr (t', l')"
    and sh: "table_shape t' = table_shape ?t1"
    and oks: "\<forall>i \<in> set ks. \<forall>r. map_of t' i = Some r \<longrightarrow> pos_ok t' i r"
    and others: "\<forall>i. i \<notin> set ks \<longrightarrow> map_of t' i = map_of ?t1 i" by blast
  have res: "position_loop (k # ks) (t, l) = Inr (t', l')"
    using step loop by simp
  have shape: "table_shape t' = table_shape t"
    using sh sh1 by simp
  have at_k: "map_of t' k = Some (item\<lparr>position := p\<rparr>)"
    using others k_notin by (simp add: update_conv')
  have ok_k: "pos_ok t' k (item\<lparr>position := p\<rparr>)"
    using shape [symmetric] ok by (rule shape_pos_ok)
  have all_ok: "\<forall>i \<in> set (k # ks). \<forall>r. map_of t' i = Some r \<longrightarrow> pos_ok t' i r"
    using oks at_k ok_k by auto
  have rest: "\<forall>i. i \<notin> set (k # ks) \<longrightarrow> map_of t' i = map_of t i"
    using others by (auto simp: update_conv')
  show ?case
    using res shape all_ok rest by blast
qed

lemma closed_from_inv:
  assumes "table_inv S t"
  shows "closed_table t"
  unfolding closed_table_def
proof (intro allI impI subsetI)
  fix i r j assume "map_of t i = Some r" "j \<in> set (overlaps r)"
  then have "(i, j) \<in> overlap_rel t" by (auto simp: overlap_rel_def)
  then have "j \<in> Range (overlap_rel t)" by auto
  with assms show "j \<in> fst ` set t" by (auto simp: table_inv_def)
qed

lemma checkCellOverlappingEvents_result:
  "\<exists>t longest.
     checkCellOverlappingEvents_with inRange cellEvents options = Inr (t, longest)
     \<and> table_shape t = table_shape (compare_events inRange options cellEvents [])
     \<and> table_inv (set cellEvents) (compare_events inRange options cellEvents [])
     \<and> fst ` set t = eid ` set cellEvents
     \<and> (\<forall>i r. map_of t i = Some r \<longrightarrow> pos_ok t i r)"
proof -
  let ?T = "compare_events inRange options cellEvents []"
  from compare_events_inv [OF table_inv_empty subset_refl, of cellEvents inRange options]
  have inv: "table_inv (set cellEvents) ?T" and keys: "fst ` set ?T = eid ` set cellEvents"
    by simp_all
  have closed: "closed_table ?T" using inv by (rule closed_from_inv)
  have dist: "distinct (map fst ?T)" using inv by (simp add: table_inv_def)
  have sub: "set (map fst ?T) \<subseteq> fst ` set ?T" by simp
  from position_loop_ok [OF closed dist sub, of 0] obtain t' l' where
    loop: "position_loop (map fst ?T) (?T, 0) = Inr (t', l')"
    and shape: "table_shape t' = table_shape ?T"
    and oks: "\<forall>i \<in> set (map fst ?T). \<forall>r. map_of t' i = Some r \<longrightarrow> pos_ok t' i r"
    by blast
  have keys': "fst ` set t' = fst ` set ?T"
    using shape by (rule shape_keys)
  have all: "\<forall>i r. map_of t' i = Some r \<longrightarrow> pos_ok t' i r"
  proof (intro allI impI)
    fix i r assume m: "map_of t' i = Some r"
    then have "i \<in> fst ` set t'" by (metis domI dom_map_of_conv_image_fst)
    with keys' have "i \<in> set (map fst ?T)" by simp
    with oks m show "pos_ok t' i r" by blast
  qed
  have "checkCellOverlappingEvents_with inRange cellEvents options = Inr (t', l')"
    using loop by (simp add: checkCellOverlappingEvents_with_def Let_def)
  with shape inv keys keys' all show ?thesis by auto
qed

lemma example_cell_result:
  "checkCellOverlappingEvents example_cell example_options = Inr (example_cell_overlaps, 2)"
  by code_simp

section \<open>The overlap table is symmetric\<close>

text \<open>
  Claim C3. For every list of cell events and all options, and for either copy of the
  range test (\<open>inRange\<close> is \<^const>\<open>eventInRange\<close> in \<^const>\<open>checkCellOverlappingEvents\<close>),
  the overlap pass returns a table (no TypeError) in which, for all ids \<open>i\<close> and \<open>j\<close> with
  an entry, \<open>j\<close> is in the overlaps of \<open>i\<close> if and only if \<open>i\<close> is in the overlaps of \<open>j\<close>.
\<close>

theorem overlaps_symmetric:
  "\<exists>t longest.
     checkCellOverlappingEvents_with inRange cellEvents options = Inr (t, longest)
     \<and> (\<forall>i j ri rj. map_of t i = Some ri \<and> map_of t j = Some rj
           \<longrightarrow> (j \<in> set (overlaps ri) \<longleftrightarrow> i \<in> set (overlaps rj)))"
proof -
  let ?T = "compare_events inRange options cellEvents []"
  from checkCellOverlappingEvents_result [of inRange cellEvents options] obtain t longest where
    res: "checkCellOverlappingEvents_with inRange cellEvents options = Inr (t, longest)"
    and shape: "table_shape t = table_shape ?T"
    and inv: "table_inv (set cellEvents) ?T" by blast
  have "sym (overlap_rel t)"
    using inv shape_rel [OF shape] by (simp add: table_inv_def)
  then have s: "\<And>i j. (i, j) \<in> overlap_rel t \<Longrightarrow> (j, i) \<in> overlap_rel t"
    by (auto simp: sym_def)
  have "j \<in> set (overlaps ri) \<longleftrightarrow> i \<in> set (overlaps rj)"
    if "map_of t i = Some ri" "map_of t j = Some rj" for i j ri rj
    using that s [of i j] s [of j i] by (auto simp: overlap_rel_def)
  with res show ?thesis by blast
qed

theorem overlaps_symmetric_witness:
  "\<exists>t longest ri rj.
     checkCellOverlappingEvents_with eventInRange example_cell example_options = Inr (t, longest)
     \<and> map_of t ''1_0'' = Some ri \<and> map_of t ''1_2'' = Some rj
     \<and> ''1_2'' \<in> set (overlaps ri) \<and> ''1_0'' \<in> set (overlaps rj)"
proof -
  from overlaps_symmetric [of eventInRange example_cell example_options] obtain t longest where
    res: "checkCellOverlappingEvents_with eventInRange example_cell example_options = Inr (t, longest)"
    and symm: "\<forall>i j ri rj. map_of t i = Some ri \<and> map_of t j = Some rj
           \<longrightarrow> (j \<in> set (overlaps ri) \<longleftrightarrow> i \<in> set (overlaps rj))" by blast
  from res example_cell_result have t: "t = example_cell_overlaps"
    by (simp add: checkCellOverlappingEvents_def)
  have first: "map_of t ''1_0''
               = Some \<lparr>overlaps = [''1_2''], ov_start = ''2019-11-02 09:00'', position = 0\<rparr>"
    and third: "map_of t ''1_2''
               = Some \<lparr>overlaps = [''1_0''], ov_start = ''2019-11-02 09:45'', position = 1\<rparr>"
    by (simp_all add: t example_cell_overlaps_def)
  have fwd: "''1_2'' \<in> set (overlaps \<lparr>overlaps = [''1_2''], ov_start = ''2019-11-02 09:00'', position = 0\<rparr>)"
    by simp
  with symm first third
  have "''1_0'' \<in> set (overlaps \<lparr>overlaps = [''1_0''], ov_start = ''2019-11-02 09:45'', position = 1\<rparr>)"
    by blast
  with res first third fwd show ?thesis by blast
qed

section \<open>Background and all-day events overlap nothing\<close>

text \<open>
  Claim C4, as amended. For every list of cell events with distinct ids, and for either copy
  of the range test, every event of the list whose \<^verbatim>\<open>background\<close> or \<^verbatim>\<open>allDay\<close> flag is true
  has an entry in the returned table, the \<^verbatim>\<open>overlaps\<close> of this entry are empty, and no
  entry's \<^verbatim>\<open>overlaps\<close> hold its id.
\<close>

theorem background_no_overlaps:
  assumes ids: "distinct (map eid cellEvents)"
    and e: "e \<in> set cellEvents"
    and bg: "background e \<or> allDay e"
  shows "\<exists>t longest.
     checkCellOverlappingEvents_with inRange cellEvents options = Inr (t, longest)
     \<and> (\<exists>r. map_of t (eid e) = Some r \<and> overlaps r = [])
     \<and> (\<forall>i r. map_of t i = Some r \<longrightarrow> eid e \<notin> set (overlaps r))"
proof -
  let ?T = "compare_events inRange options cellEvents []"
  let ?G = "{(i, j). \<exists>x y. i = eid x \<and> j = eid y \<and> x \<in> set cellEvents \<and> y \<in> set cellEvents
                        \<and> participates x \<and> participates y}"
  from checkCellOverlappingEvents_result [of inRange cellEvents options] obtain t longest where
    res: "checkCellOverlappingEvents_with inRange cellEvents options = Inr (t, longest)"
    and shape: "table_shape t = table_shape ?T"
    and inv: "table_inv (set cellEvents) ?T"
    and keys: "fst ` set t = eid ` set cellEvents" by blast
  have sub: "overlap_rel t \<subseteq> ?G"
    using inv shape_rel [OF shape] by (simp add: table_inv_def)
  have inj: "inj_on eid (set cellEvents)"
    using ids by (simp add: distinct_map)
  have np: "\<not> participates e"
    using bg by (auto simp: participates_def)
  have left: "(eid e, j) \<notin> overlap_rel t" for j
  proof
    assume "(eid e, j) \<in> overlap_rel t"
    with sub obtain x where "eid e = eid x" "x \<in> set cellEvents" "participates x" by blast
    with inj e have "x = e" by (auto dest: inj_onD)
    with \<open>participates x\<close> np show False by simp
  qed
  have right: "(i, eid e) \<notin> overlap_rel t" for i
  proof
    assume "(i, eid e) \<in> overlap_rel t"
    with sub obtain y where "eid e = eid y" "y \<in> set cellEvents" "participates y" by blast
    with inj e have "y = e" by (auto dest: inj_onD)
    with \<open>participates y\<close> np show False by simp
  qed
  from e keys have "eid e \<in> fst ` set t" by auto
  then obtain r where r: "map_of t (eid e) = Some r"
    by (metis domD dom_map_of_conv_image_fst)
  have "overlaps r = []"
  proof (cases "overlaps r")
    case Nil
    then show ?thesis .
  next
    case (Cons j js)
    with r have "(eid e, j) \<in> overlap_rel t" by (auto simp: overlap_rel_def)
    with left show ?thesis by blast
  qed
  moreover have "\<forall>i r. map_of t i = Some r \<longrightarrow> eid e \<notin> set (overlaps r)"
    using right by (auto simp: overlap_rel_def)
  ultimately show ?thesis using res r by blast
qed

theorem background_no_overlaps_witness:
  "distinct (map eid example_cell) \<and> example_cell_background \<in> set example_cell
   \<and> background example_cell_background
   \<and> (\<exists>t longest r.
         checkCellOverlappingEvents_with eventInRange example_cell example_options = Inr (t, longest)
         \<and> map_of t ''1_1'' = Some r \<and> overlaps r = []
         \<and> ''1_1'' \<notin> set (overlaps (the (map_of t ''1_0'')))
         \<and> ''1_1'' \<notin> set (overlaps (the (map_of t ''1_2''))))"
proof -
  have ids: "distinct (map eid example_cell)"
    by (simp add: example_cell_def example_cell_first_def example_cell_background_def
        example_cell_third_def)
  have mem: "example_cell_background \<in> set example_cell"
    by (simp add: example_cell_def)
  have bg: "background example_cell_background"
    by (simp add: example_cell_background_def)
  have eid: "eid example_cell_background = ''1_1''"
    by (simp add: example_cell_background_def)
  from background_no_overlaps [OF ids mem disjI1 [OF bg], of eventInRange example_options]
  obtain t longest r where
    res: "checkCellOverlappingEvents_with eventInRange example_cell example_options = Inr (t, longest)"
    and r: "map_of t ''1_1'' = Some r" "overlaps r = []"
    and none: "\<forall>i r. map_of t i = Some r \<longrightarrow> ''1_1'' \<notin> set (overlaps r)"
    unfolding eid by blast
  from res example_cell_result have t: "t = example_cell_overlaps"
    by (simp add: checkCellOverlappingEvents_def)
  have "\<exists>r. map_of t ''1_0'' = Some r" "\<exists>r. map_of t ''1_2'' = Some r"
    by (simp_all add: t example_cell_overlaps_def)
  with none have "''1_1'' \<notin> set (overlaps (the (map_of t ''1_0'')))"
    "''1_1'' \<notin> set (overlaps (the (map_of t ''1_2'')))"
    by auto
  with ids mem bg res r show ?thesis by blast
qed

text \<open>
  Claim C4 as stated, for every list of cell events, fails for a list in which two events
  share an id, since the table is keyed by the id: with the background event under the id of
  the first event, the one entry of this id has the overlaps of the event that is not in the
  background, and the third event's overlaps hold the id.
\<close>

theorem background_shared_id_counterexample:
  "example_cell_shared_background \<in> set example_cell_shared_id
   \<and> background example_cell_shared_background
   \<and> eid example_cell_shared_background = ''1_0''
   \<and> checkCellOverlappingEvents example_cell_shared_id example_options
       = Inr ([(''1_0'', \<lparr>overlaps = [''1_2''], ov_start = ''2019-11-02 09:30'', position = 0\<rparr>),
               (''1_2'', \<lparr>overlaps = [''1_0''], ov_start = ''2019-11-02 09:45'', position = 1\<rparr>)],
              2)"
  by code_simp

section \<open>The final position is an index of the row\<close>

text \<open>
  Claim C10. For every list of cell events, every entry of the returned table has a
  \<^verbatim>\<open>position\<close> with \<open>0 \<le> position \<le> |overlaps|\<close>: it is the index, found by \<^verbatim>\<open>findIndex\<close>,
  of the entry's own id in the sorted row of its overlaps and itself.
\<close>

theorem position_in_row:
  "\<exists>t longest.
     checkCellOverlappingEvents_with inRange cellEvents options = Inr (t, longest)
     \<and> (\<forall>i r. map_of t i = Some r
           \<longrightarrow> 0 \<le> position r \<and> position r \<le> int (length (overlaps r))
               \<and> (\<exists>row0. overlapsRow t (overlaps r) = Inr row0
                     \<and> position r
                         = findIndex (\<lambda>x. fst x = i) (row_sort (row0 @ [(i, ov_start r)]))))"
proof -
  from checkCellOverlappingEvents_result [of inRange cellEvents options] obtain t longest where
    res: "checkCellOverlappingEvents_with inRange cellEvents options = Inr (t, longest)"
    and ok: "\<forall>i r. map_of t i = Some r \<longrightarrow> pos_ok t i r" by blast
  from ok have "\<forall>i r. map_of t i = Some r
           \<longrightarrow> 0 \<le> position r \<and> position r \<le> int (length (overlaps r))
               \<and> (\<exists>row0. overlapsRow t (overlaps r) = Inr row0
                     \<and> position r
                         = findIndex (\<lambda>x. fst x = i) (row_sort (row0 @ [(i, ov_start r)])))"
    unfolding pos_ok_def by blast
  with res show ?thesis by blast
qed

theorem position_in_row_witness:
  "\<exists>t longest r.
     checkCellOverlappingEvents_with eventInRange example_cell example_options = Inr (t, longest)
     \<and> map_of t ''1_2'' = Some r \<and> position r = 1
     \<and> 0 \<le> position r \<and> position r \<le> int (length (overlaps r))"
proof -
  from position_in_row [of eventInRange example_cell example_options] obtain t longest where
    res: "checkCellOverlappingEvents_with eventInRange example_cell example_options = Inr (t, longest)"
    and pos: "\<forall>i r. map_of t i = Some r
           \<longrightarrow> 0 \<le> position r \<and> position r \<le> int (length (overlaps r))
               \<and> (\<exists>row0. overlapsRow t (overlaps r) = Inr row0
                     \<and> position r
                         = findIndex (\<lambda>x. fst x = i) (row_sort (row0 @ [(i, ov_start r)])))"
    by blast
  from res example_cell_result have t: "t = example_cell_overlaps"
    by (simp add: checkCellOverlappingEvents_def)
  have third: "map_of t ''1_2''
               = Some \<lparr>overlaps = [''1_0''], ov_start = ''2019-11-02 09:45'', position = 1\<rparr>"
    by (simp add: t example_cell_overlaps_def)
  with pos have "0 \<le> position \<lparr>overlaps = [''1_0''], ov_start = ''2019-11-02 09:45'', position = 1\<rparr>
      \<and> position \<lparr>overlaps = [''1_0''], ov_start = ''2019-11-02 09:45'', position = 1\<rparr>
          \<le> int (length (overlaps \<lparr>overlaps = [''1_0''], ov_start = ''2019-11-02 09:45'', position = 1\<rparr>))"
    by blast
  with res third show ?thesis by auto
qed

end
